theory Spec2Isabelle
  imports Main "HOL-Library.Word"
begin

section \<open>The link inline tool: strings, patterns, normalisation\<close>

text \<open>
  The development follows \<^verbatim>\<open>src/components/inline-tools/inline-tool-link.ts\<close>.
  A JavaScript string is a sequence of UTF-16 code units, so a character is a
  16-bit word and \<^verbatim>\<open>length\<close> counts code units as \<^verbatim>\<open>String.length\<close> does.
\<close>

type_synonym jschar = "16 word"
type_synonym jsstring = "jschar list"

text \<open>An ASCII literal of the source, as code units.\<close>

definition js :: "string \<Rightarrow> jsstring" where
  "js s = map of_char s"

subsection \<open>Character classes of ECMAScript\<close>

text \<open>
  \<^verbatim>\<open>\s\<close> and \<^verbatim>\<open>String.prototype.trim\<close> use the same set: the WhiteSpace and
  LineTerminator productions (TAB, LF, VT, FF, CR, SP, NBSP, the category Zs,
  LS, PS and the byte order mark).
\<close>

definition isWhiteSpace :: "jschar \<Rightarrow> bool" where
  "isWhiteSpace c \<longleftrightarrow>
     (0x0009 \<le> c \<and> c \<le> 0x000D) \<or> c = 0x0020 \<or> c = 0x00A0 \<or> c = 0x1680 \<or>
     (0x2000 \<le> c \<and> c \<le> 0x200A) \<or> c = 0x2028 \<or> c = 0x2029 \<or> c = 0x202F \<or>
     c = 0x205F \<or> c = 0x3000 \<or> c = 0xFEFF"

text \<open>The dot of a pattern without the \<^verbatim>\<open>s\<close> flag matches all but the line terminators.\<close>

definition isLineTerminator :: "jschar \<Rightarrow> bool" where
  "isLineTerminator c \<longleftrightarrow> c = 0x000A \<or> c = 0x000D \<or> c = 0x2028 \<or> c = 0x2029"

text \<open>\<^verbatim>\<open>\w\<close> without the \<^verbatim>\<open>u\<close> and \<^verbatim>\<open>i\<close> flags: \<^verbatim>\<open>[A-Za-z0-9_]\<close>.\<close>

definition isWordChar :: "jschar \<Rightarrow> bool" where
  "isWordChar c \<longleftrightarrow>
     (0x0030 \<le> c \<and> c \<le> 0x0039) \<or> (0x0041 \<le> c \<and> c \<le> 0x005A) \<or> c = 0x005F \<or>
     (0x0061 \<le> c \<and> c \<le> 0x007A)"

definition SLASH :: jschar where "SLASH = 0x002F"
definition COLON :: jschar where "COLON = 0x003A"
definition HASH :: jschar where "HASH = 0x0023"
definition LBRACKET :: jschar where "LBRACKET = 0x005B"
definition RBRACKET :: jschar where "RBRACKET = 0x005D"

subsection \<open>Patterns\<close>

text \<open>
  The patterns of the source use character classes, concatenation, \<^verbatim>\<open>+\<close>, \<^verbatim>\<open>?\<close>
  and groups that are never referred to. \<^verbatim>\<open>RegExp.prototype.test\<close> only says
  whether some match exists, so a pattern is matched by taking derivatives.
\<close>

datatype pattern =
    Never
  | Blank
  | Class "jschar \<Rightarrow> bool"
  | Cat pattern pattern
  | Either pattern pattern
  | Many pattern

definition Lit :: "jschar \<Rightarrow> pattern" where
  "Lit a = Class (\<lambda>c. c = a)"

text \<open>\<^verbatim>\<open>r+\<close> and \<^verbatim>\<open>r?\<close>.\<close>

definition Some1 :: "pattern \<Rightarrow> pattern" where
  "Some1 r = Cat r (Many r)"

definition Maybe :: "pattern \<Rightarrow> pattern" where
  "Maybe r = Either r Blank"

fun nullable :: "pattern \<Rightarrow> bool" where
  "nullable Never = False"
| "nullable Blank = True"
| "nullable (Class p) = False"
| "nullable (Cat r s) = (nullable r \<and> nullable s)"
| "nullable (Either r s) = (nullable r \<or> nullable s)"
| "nullable (Many r) = True"

fun deriv :: "jschar \<Rightarrow> pattern \<Rightarrow> pattern" where
  "deriv c Never = Never"
| "deriv c Blank = Never"
| "deriv c (Class p) = (if p c then Blank else Never)"
| "deriv c (Cat r s) =
     (if nullable r then Either (Cat (deriv c r) s) (deriv c s) else Cat (deriv c r) s)"
| "deriv c (Either r s) = Either (deriv c r) (deriv c s)"
| "deriv c (Many r) = Cat (deriv c r) (Many r)"

text \<open>\<^verbatim>\<open>/^r$/.test(s)\<close>: the whole of \<open>s\<close> matches.\<close>

fun test_whole :: "pattern \<Rightarrow> jsstring \<Rightarrow> bool" where
  "test_whole r [] = nullable r"
| "test_whole r (c # cs) = test_whole (deriv c r) cs"

text \<open>\<^verbatim>\<open>/^r/.test(s)\<close>: some prefix of \<open>s\<close> matches.\<close>

fun test_start :: "pattern \<Rightarrow> jsstring \<Rightarrow> bool" where
  "test_start r [] = nullable r"
| "test_start r (c # cs) = (nullable r \<or> test_start (deriv c r) cs)"

text \<open>\<^verbatim>\<open>/r/.test(s)\<close>: a match starts somewhere in \<open>s\<close>.\<close>

fun test_any :: "pattern \<Rightarrow> jsstring \<Rightarrow> bool" where
  "test_any r [] = nullable r"
| "test_any r (c # cs) = (test_start r (c # cs) \<or> test_any r cs)"

subsection \<open>validateURL, prepareLink, addProtocol\<close>

text \<open>\<^verbatim>\<open>String.prototype.trim\<close>.\<close>

definition trim :: "jsstring \<Rightarrow> jsstring" where
  "trim s = rev (dropWhile isWhiteSpace (rev (dropWhile isWhiteSpace s)))"

text \<open>\<^verbatim>\<open>return !/\s/.test(str);\<close>\<close>

definition validateURL :: "jsstring \<Rightarrow> bool" where
  "validateURL str = (\<not> test_any (Class isWhiteSpace) str)"

text \<open>\<^verbatim>\<open>/^(\w+):(\/\/)?/\<close>\<close>

definition protocolPattern :: pattern where
  "protocolPattern =
     Cat (Some1 (Class isWordChar)) (Cat (Lit COLON) (Maybe (Cat (Lit SLASH) (Lit SLASH))))"

text \<open>\<^verbatim>\<open>/^\/[^/\s]/\<close>\<close>

definition internalPattern :: pattern where
  "internalPattern = Cat (Lit SLASH) (Class (\<lambda>c. \<not> (c = SLASH \<or> isWhiteSpace c)))"

text \<open>\<^verbatim>\<open>/^\/\/[^/\s]/\<close>\<close>

definition protocolRelativePattern :: pattern where
  "protocolRelativePattern =
     Cat (Lit SLASH) (Cat (Lit SLASH) (Class (\<lambda>c. \<not> (c = SLASH \<or> isWhiteSpace c))))"

text \<open>\<^verbatim>\<open>/^\[.+\]$/\<close>\<close>

definition escapedUrlPattern :: pattern where
  "escapedUrlPattern =
     Cat (Lit LBRACKET) (Cat (Some1 (Class (\<lambda>c. \<not> isLineTerminator c))) (Lit RBRACKET))"

definition addProtocol :: "jsstring \<Rightarrow> jsstring" where
  "addProtocol link =
     (if test_start protocolPattern link then link
      else
        let isInternal = test_start internalPattern link;
            isInternalRoot = (length link = 1 \<and> link ! 0 = SLASH);
            isAnchor = (take 1 link = [HASH]);
            isProtocolRelative = test_start protocolRelativePattern link;
            isEscapedUrl = test_whole escapedUrlPattern link
        in if \<not> isInternal \<and> \<not> isInternalRoot \<and> \<not> isAnchor \<and> \<not> isProtocolRelative
              \<and> \<not> isEscapedUrl
           then js ''http://'' @ link
           else link)"

definition prepareLink :: "jsstring \<Rightarrow> jsstring" where
  "prepareLink link = addProtocol (trim link)"

section \<open>The document, the selection and the host\<close>

text \<open>
  The tool works on the browser's document and selection through
  \<^verbatim>\<open>SelectionUtils\<close> (\<^verbatim>\<open>../selection\<close>) and \<^verbatim>\<open>document.execCommand\<close>, and
  tells the host through \<^verbatim>\<open>api.toolbar\<close>, \<^verbatim>\<open>api.inlineToolbar\<close> and
  \<^verbatim>\<open>api.notifier\<close>. None of them is part of the file; they are modelled from
  the specification, each definition saying so.
\<close>

subsection \<open>Document and selection\<close>

text \<open>
  Modelled from the spec: the document the tool annotates. \<section>3 and the glossary
  speak of text and of annotations "wrapping a span of document text, carrying
  href and optional title", both attributes "optional strings, absent encoded
  distinctly from empty". The inline content of the edited block is a sequence
  of runs, each plain text or one annotation around its text.
\<close>

datatype inline =
    Plain jsstring
  | Anchor "jsstring option" "jsstring option" jsstring

fun text_of :: "inline \<Rightarrow> jsstring" where
  "text_of (Plain x) = x"
| "text_of (Anchor h t x) = x"

text \<open>\<^verbatim>\<open>getAttribute('href')\<close> and \<^verbatim>\<open>getAttribute('title')\<close>: null when absent.\<close>

fun href_of :: "inline \<Rightarrow> jsstring option" where
  "href_of (Plain x) = None"
| "href_of (Anchor h t x) = h"

fun title_of :: "inline \<Rightarrow> jsstring option" where
  "title_of (Plain x) = None"
| "title_of (Anchor h t x) = t"

text \<open>
  Modelled from the spec: the SelectionSnapshot of \<section>3, "start/end text positions
  plus enclosing-node identity".
\<close>

record snapshot =
  sel_node :: nat
  sel_from :: nat
  sel_to :: nat

subsection \<open>SelectionUtils\<close>

text \<open>
  Modelled from the spec: the SelectionTracker of \<section>2 and \<section>3, which owns the
  saved SelectionSnapshot and the FakeBackgroundState; the source reads the
  latter as \<^verbatim>\<open>this.selection.isFakeBackgroundEnabled\<close>.
\<close>

record selectionUtils =
  savedSelectionRange :: "snapshot option"
  isFakeBackgroundEnabled :: bool

text \<open>\<^verbatim>\<open>new SelectionUtils()\<close>\<close>

definition new_SelectionUtils :: selectionUtils where
  "new_SelectionUtils = \<lparr>savedSelectionRange = None, isFakeBackgroundEnabled = False\<rparr>"

text \<open>
  Modelled from the spec: \<section>4.1, "save() captures the current document selection
  into a SelectionSnapshot; fails silently (no-op) if there is no active
  selection". The first argument is the document's selection.
\<close>

definition save :: "snapshot option \<Rightarrow> selectionUtils \<Rightarrow> selectionUtils" where
  "save current u =
     (case current of None \<Rightarrow> u | Some r \<Rightarrow> u\<lparr>savedSelectionRange := Some r\<rparr>)"

text \<open>
  Modelled from the spec: \<section>4.1, "restore() re-applies the last saved
  SelectionSnapshot as the active selection", and \<section>7, "restore with no prior
  snapshot" is a silent no-op. The result is the document's selection.
\<close>

definition restore :: "selectionUtils \<Rightarrow> snapshot option \<Rightarrow> snapshot option" where
  "restore u current =
     (case savedSelectionRange u of None \<Rightarrow> current | Some r \<Rightarrow> Some r)"

text \<open>Modelled from the spec: \<section>4.1, "clearSaved() discards the SelectionSnapshot".\<close>

definition clearSaved :: "selectionUtils \<Rightarrow> selectionUtils" where
  "clearSaved u = u\<lparr>savedSelectionRange := None\<rparr>"

text \<open>
  Modelled from the spec: \<section>4.1, "setFakeBackground() / removeFakeBackground()
  toggle FakeBackgroundState; removal must restore the original visual
  selection rendering exactly".
\<close>

definition setFakeBackground :: "selectionUtils \<Rightarrow> selectionUtils" where
  "setFakeBackground u = u\<lparr>isFakeBackgroundEnabled := True\<rparr>"

text \<open>
  Modelled from the spec: \<section>4.1, removeFakeBackground, the other half of the
  toggle.
\<close>

definition removeFakeBackground :: "selectionUtils \<Rightarrow> selectionUtils" where
  "removeFakeBackground u = u\<lparr>isFakeBackgroundEnabled := False\<rparr>"

subsection \<open>The tool\<close>

text \<open>
  What the tool calls on its collaborators, in the order of the calls. The two
  entries \<open>CurrentSave\<close> and \<open>CurrentRestore\<close> are \<^verbatim>\<open>save\<close> and \<^verbatim>\<open>restore\<close> of the
  \<^verbatim>\<open>currentSelection\<close> that \<^verbatim>\<open>closeActions\<close> creates.
\<close>

datatype call =
    SetFakeBackground
  | Save
  | Restore
  | RemoveFakeBackground
  | ClearSaved
  | ExpandToTag nat
  | CollapseToEnd
  | CurrentSave
  | CurrentRestore
  | ExecCommand jsstring "jsstring option"
  | SetTitle jsstring
  | Focus
  | NotifierShow jsstring jsstring
  | Log jsstring jsstring jsstring
  | ToolbarClose
  | InlineToolbarClose
  | PreventDefault
  | StopPropagation
  | StopImmediatePropagation

text \<open>
  The state after \<^verbatim>\<open>render\<close> and \<^verbatim>\<open>renderActions\<close>: the document and its
  selection (\<open>live\<close>), \<^verbatim>\<open>this.selection\<close>, \<^verbatim>\<open>this.inputOpened\<close>, the values of the
  two inputs, the \<^verbatim>\<open>inputShowed\<close> class on the three input nodes, the two
  classes of the button, and the calls made so far.
\<close>

record tool =
  doc :: "inline list"
  live :: "snapshot option"
  selection :: selectionUtils
  inputOpened :: bool
  linkValue :: jsstring
  titleValue :: jsstring
  rootShowed :: bool
  linkShowed :: bool
  titleShowed :: bool
  buttonUnlink :: bool
  buttonActive :: bool
  calls :: "call list"

definition called :: "call \<Rightarrow> tool \<Rightarrow> tool" where
  "called c s = s\<lparr>calls := calls s @ [c]\<rparr>"

text \<open>The methods of \<^verbatim>\<open>this.selection\<close>, on the state of the tool.\<close>

definition selection_setFakeBackground :: "tool \<Rightarrow> tool" where
  "selection_setFakeBackground s =
     called SetFakeBackground (s\<lparr>selection := setFakeBackground (selection s)\<rparr>)"

definition selection_removeFakeBackground :: "tool \<Rightarrow> tool" where
  "selection_removeFakeBackground s =
     called RemoveFakeBackground (s\<lparr>selection := removeFakeBackground (selection s)\<rparr>)"

definition selection_save :: "tool \<Rightarrow> tool" where
  "selection_save s = called Save (s\<lparr>selection := save (live s) (selection s)\<rparr>)"

definition selection_restore :: "tool \<Rightarrow> tool" where
  "selection_restore s = called Restore (s\<lparr>live := restore (selection s) (live s)\<rparr>)"

definition selection_clearSaved :: "tool \<Rightarrow> tool" where
  "selection_clearSaved s = called ClearSaved (s\<lparr>selection := clearSaved (selection s)\<rparr>)"

text \<open>
  Modelled from the spec: \<section>4.1, "findParentTag(tagName) ascends from the current
  selection's anchor node to locate the nearest enclosing element matching
  tagName; returns null if none found". The tool only asks for \<^verbatim>\<open>'A'\<close>; the
  element is named by its place in the document.
\<close>

definition findParentTag :: "tool \<Rightarrow> nat option" where
  "findParentTag s =
     (case live s of
        None \<Rightarrow> None
      | Some r \<Rightarrow>
          if sel_node r < length (doc s)
          then (case doc s ! sel_node r of Anchor h t x \<Rightarrow> Some (sel_node r) | Plain x \<Rightarrow> None)
          else None)"

text \<open>
  Modelled from the spec: \<section>4.1, "expandToTag(element) replaces the active
  selection with one spanning the full contents of element".
\<close>

definition expandToTag :: "nat \<Rightarrow> tool \<Rightarrow> tool" where
  "expandToTag a s =
     called (ExpandToTag a)
       (s\<lparr>live := Some \<lparr>sel_node = a, sel_from = 0,
                         sel_to = length (text_of (doc s ! a))\<rparr>\<rparr>)"

text \<open>
  Modelled from the spec: \<section>4.4, "collapse the selection to the end of the new
  annotation"; the new annotation is the selection when the tool calls it.
\<close>

definition collapseToEnd :: "tool \<Rightarrow> tool" where
  "collapseToEnd s =
     called CollapseToEnd
       (s\<lparr>live := (case live s of
                     None \<Rightarrow> None
                   | Some r \<Rightarrow> Some (r\<lparr>sel_from := sel_to r\<rparr>))\<rparr>)"

subsection \<open>document.execCommand\<close>

text \<open>
  Modelled from the spec: \<section>4.3, remove "unwraps the nearest enclosing annotation
  around the current selection, leaving its text content in place with no
  annotation markup. No-op if no enclosing annotation exists".
\<close>

definition execCommand_unlink :: "tool \<Rightarrow> tool" where
  "execCommand_unlink s =
     called (ExecCommand (js ''unlink'') None)
       (case findParentTag s of
          None \<Rightarrow> s
        | Some a \<Rightarrow> s\<lparr>doc := (doc s)[a := Plain (text_of (doc s ! a))]\<rparr>)"

text \<open>The run \<open>n\<close> with its text replaced: what is left of a run that is split.\<close>

fun with_text :: "inline \<Rightarrow> jsstring \<Rightarrow> inline" where
  "with_text (Plain x) y = Plain y"
| "with_text (Anchor h t x) y = Anchor h t y"

definition piece :: "inline \<Rightarrow> jsstring \<Rightarrow> inline list" where
  "piece n y = (if y = [] then [] else [with_text n y])"

text \<open>
  Modelled from the spec: \<section>4.3, insert mutates the document "so the selected text
  is wrapped by a single annotation element carrying href = link", and "either
  the previous content is fully replaced by one annotated span, or the document
  is left unchanged". The document is left unchanged when there is no selection
  or no selected text. Otherwise the selected text of the run becomes a new
  annotation, which has no title yet, what is left of the run stays before and
  after it, and the selection is the contents of the new annotation.
\<close>

definition execCommand_createLink :: "jsstring \<Rightarrow> tool \<Rightarrow> tool" where
  "execCommand_createLink link s =
     called (ExecCommand (js ''createLink'') (Some link))
       (case live s of
          None \<Rightarrow> s
        | Some r \<Rightarrow>
            if sel_node r < length (doc s) \<and> sel_from r < sel_to r
               \<and> sel_to r \<le> length (text_of (doc s ! sel_node r))
            then
              let n = doc s ! sel_node r;
                  pre = piece n (take (sel_from r) (text_of n));
                  selected = take (sel_to r - sel_from r) (drop (sel_from r) (text_of n));
                  post = piece n (drop (sel_to r) (text_of n))
              in s\<lparr>doc := take (sel_node r) (doc s) @ pre @ [Anchor (Some link) None selected]
                          @ post @ drop (Suc (sel_node r)) (doc s),
                    live := Some \<lparr>sel_node = sel_node r + length pre, sel_from = 0,
                                   sel_to = length selected\<rparr>\<rparr>
            else s)"

subsection \<open>The methods of LinkInlineTool\<close>

datatype error = TypeError

text \<open>
  Assigning to the \<^verbatim>\<open>value\<close> of the two inputs. \<^verbatim>\<open>renderActions\<close> makes them with
  \<^verbatim>\<open>document.createElement('input')\<close> and sets no type, so they are text inputs:
  null becomes the empty string, and the browser strips every LF (U+000A) and
  CR (U+000D) from the string it is given.
\<close>

definition input_value :: "jsstring option \<Rightarrow> jsstring" where
  "input_value v =
     (case v of None \<Rightarrow> [] | Some x \<Rightarrow> filter (\<lambda>c. c \<noteq> 0x000A \<and> c \<noteq> 0x000D) x)"

definition openActions :: "bool \<Rightarrow> tool \<Rightarrow> tool" where
  "openActions needFocus s =
     (let s1 = s\<lparr>rootShowed := True, linkShowed := True\<rparr>;
          s2 = (if needFocus then called Focus s1 else s1)
      in s2\<lparr>titleShowed := True, inputOpened := True\<rparr>)"

definition closeActions :: "bool \<Rightarrow> tool \<Rightarrow> tool" where
  "closeActions clearSavedSelection s =
     (let s1 =
            (if isFakeBackgroundEnabled (selection s) then
               let currentSelection = save (live s) new_SelectionUtils;
                   a = called CurrentSave s;
                   b = selection_restore a;
                   c = selection_removeFakeBackground b
               in called CurrentRestore (c\<lparr>live := restore currentSelection (live c)\<rparr>)
             else s);
          s2 = s1\<lparr>rootShowed := False, linkShowed := False, titleShowed := False,
                  linkValue := [], titleValue := []\<rparr>;
          s3 = (if clearSavedSelection then selection_clearSaved s2 else s2)
      in s3\<lparr>inputOpened := False\<rparr>)"

definition toggleActions :: "tool \<Rightarrow> tool" where
  "toggleActions s = (if \<not> inputOpened s then openActions True s else closeActions False s)"

definition unlink :: "tool \<Rightarrow> tool" where
  "unlink s = execCommand_unlink s"

definition checkState :: "tool \<Rightarrow> bool \<times> tool" where
  "checkState s =
     (case findParentTag s of
        Some anchorTag \<Rightarrow>
          let s1 = openActions False (s\<lparr>buttonUnlink := True, buttonActive := True\<rparr>);
              hrefAttr = href_of (doc s ! anchorTag);
              titleAttr = title_of (doc s ! anchorTag);
              s2 = s1\<lparr>linkValue :=
                        input_value (if hrefAttr \<noteq> Some (js ''null'') then hrefAttr else Some []),
                      titleValue :=
                        input_value (if titleAttr \<noteq> Some (js ''null'') then titleAttr else Some [])\<rparr>
          in (True, selection_save s2)
      | None \<Rightarrow> (False, s\<lparr>buttonUnlink := False, buttonActive := False\<rparr>))"

text \<open>\<^verbatim>\<open>surround(range)\<close>; the range (here \<open>rng\<close>) is only tested for null.\<close>

definition surround :: "snapshot option \<Rightarrow> tool \<Rightarrow> tool" where
  "surround rng s =
     (case rng of
        None \<Rightarrow> toggleActions s
      | Some _ \<Rightarrow>
          let s1 = (if \<not> inputOpened s
                    then selection_save (selection_setFakeBackground s)
                    else selection_removeFakeBackground (selection_restore s))
          in (case findParentTag s1 of
                Some parentAnchor \<Rightarrow>
                  called ToolbarClose
                    (snd (checkState (closeActions True (unlink (expandToTag parentAnchor s1)))))
              | None \<Rightarrow> toggleActions s1))"

definition clear :: "tool \<Rightarrow> tool" where
  "clear s = closeActions True s"

text \<open>
  Modelled from the spec: the host's \<^verbatim>\<open>inlineToolbar.close()\<close>. \<section>6 calls it a
  session-end signal and \<section>4.4 has "clear() (host-driven, e.g., toolbar
  dismissal)"; the source says of \<^verbatim>\<open>clear\<close>: "Function called with Inline
  Toolbar closing". So the host, closing the inline toolbar, calls \<^verbatim>\<open>clear\<close>.
\<close>

definition inlineToolbar_close :: "tool \<Rightarrow> tool" where
  "inlineToolbar_close s = clear (called InlineToolbarClose s)"

text \<open>
  \<^verbatim>\<open>this.selection.findParentTag('A').title = title\<close> throws a TypeError when no
  annotation is found; otherwise the title attribute of the annotation is set.
\<close>

definition insertLink :: "jsstring \<Rightarrow> jsstring \<Rightarrow> tool \<Rightarrow> error + tool" where
  "insertLink link title s =
     (let s1 = (case findParentTag s of Some anchorTag \<Rightarrow> expandToTag anchorTag s | None \<Rightarrow> s);
          s2 = execCommand_createLink link s1
      in case findParentTag s2 of
           None \<Rightarrow> Inl TypeError
         | Some a \<Rightarrow>
             Inr (called (SetTitle title)
                    (s2\<lparr>doc := (doc s2)[a := Anchor (href_of (doc s2 ! a)) (Some title)
                                                (text_of (doc s2 ! a))]\<rparr>)))"

text \<open>
  \<^verbatim>\<open>enterPressed(event)\<close>. The value of an input is a string, so \<^verbatim>\<open>|| ''\<close> changes
  nothing; the empty string is the only string that is false.
\<close>

definition enterPressed :: "tool \<Rightarrow> error + tool" where
  "enterPressed s =
     (let link = linkValue s;
          title = titleValue s
      in if trim link = [] then
           Inr (closeActions True (called PreventDefault (unlink (selection_restore s))))
         else if \<not> validateURL link then
           Inr (called (Log (js ''Incorrect Link pasted'') (js ''warn'') link)
                  (called (NotifierShow (js ''Pasted link is not valid.'') (js ''error'')) s))
         else
           let link' = prepareLink link;
               s1 = selection_removeFakeBackground (selection_restore s)
           in case insertLink link' title s1 of
                Inl e \<Rightarrow> Inl e
              | Inr s2 \<Rightarrow>
                  Inr (inlineToolbar_close
                         (collapseToEnd
                            (called StopImmediatePropagation
                               (called StopPropagation (called PreventDefault s2))))))"

section \<open>What the patterns denote\<close>

text \<open>
  The strings a pattern matches, as a set: what the derivatives are checked
  against.
\<close>

inductive_set star :: "jsstring set \<Rightarrow> jsstring set" for A :: "jsstring set" where
  star_empty: "[] \<in> star A"
| star_more: "u \<in> A \<Longrightarrow> v \<in> star A \<Longrightarrow> u @ v \<in> star A"

fun lang :: "pattern \<Rightarrow> jsstring set" where
  "lang Never = {}"
| "lang Blank = {[]}"
| "lang (Class p) = {[c] | c. p c}"
| "lang (Cat r s) = {u @ v | u v. u \<in> lang r \<and> v \<in> lang s}"
| "lang (Either r s) = lang r \<union> lang s"
| "lang (Many r) = star (lang r)"

section \<open>The reference for normalisation\<close>

text \<open>
  The shapes of \<section>4.2, read off the strings directly and without patterns. A
  scheme is one or more of \<^verbatim>\<open>[A-Za-z0-9_]\<close> followed by a colon; whether
  \<^verbatim>\<open>//\<close> follows makes no difference.
\<close>

definition hasScheme :: "jsstring \<Rightarrow> bool" where
  "hasScheme s \<longleftrightarrow>
     takeWhile isWordChar s \<noteq> [] \<and> take 1 (dropWhile isWordChar s) = [COLON]"

text \<open>
  "Internal root path (\<^verbatim>\<open>/\<close> exactly)" and "in-page anchor (leading
  \<^verbatim>\<open>#\<close>)".
\<close>

definition rootPath :: "jsstring \<Rightarrow> bool" where
  "rootPath s \<longleftrightarrow> s = [SLASH]"

definition inPageAnchor :: "jsstring \<Rightarrow> bool" where
  "inPageAnchor s = (case s of a # rest \<Rightarrow> a = HASH | [] \<Rightarrow> False)"

text \<open>
  The reference in the words of the spec: "internal nested path (\<^verbatim>\<open>/x...\<close>
  without a second leading slash)", "protocol-relative URL (\<^verbatim>\<open>//x...\<close>)",
  "bracket-escaped token (\<^verbatim>\<open>[...]\<close> spanning the whole string)", where
  \<^verbatim>\<open>x\<close> stands for a character and the dots for any text.
\<close>

definition spec_nestedPath :: "jsstring \<Rightarrow> bool" where
  "spec_nestedPath s = (case s of a # x # rest \<Rightarrow> a = SLASH \<and> x \<noteq> SLASH | _ \<Rightarrow> False)"

definition spec_protocolRelative :: "jsstring \<Rightarrow> bool" where
  "spec_protocolRelative s = (case s of a # b # x # rest \<Rightarrow> a = SLASH \<and> b = SLASH | _ \<Rightarrow> False)"

definition spec_bracketToken :: "jsstring \<Rightarrow> bool" where
  "spec_bracketToken s =
     (case s of [] \<Rightarrow> False | a # m \<Rightarrow> a = LBRACKET \<and> m \<noteq> [] \<and> last m = RBRACKET)"

definition normalize_spec :: "jsstring \<Rightarrow> jsstring" where
  "normalize_spec raw =
     (let s = trim raw
      in if hasScheme s then s
         else if spec_nestedPath s \<or> rootPath s \<or> inPageAnchor s \<or> spec_protocolRelative s
                 \<or> spec_bracketToken s
         then s
         else js ''http://'' @ s)"

text \<open>
  The same three shapes with what they leave open settled: \<^verbatim>\<open>x\<close> is neither a
  slash nor white space, and between the brackets stands at least one
  character and no line terminator.
\<close>

definition nestedPath :: "jsstring \<Rightarrow> bool" where
  "nestedPath s =
     (case s of a # x # rest \<Rightarrow> a = SLASH \<and> x \<noteq> SLASH \<and> \<not> isWhiteSpace x | _ \<Rightarrow> False)"

definition protocolRelative :: "jsstring \<Rightarrow> bool" where
  "protocolRelative s =
     (case s of
        a # b # x # rest \<Rightarrow> a = SLASH \<and> b = SLASH \<and> x \<noteq> SLASH \<and> \<not> isWhiteSpace x
      | _ \<Rightarrow> False)"

definition bracketToken :: "jsstring \<Rightarrow> bool" where
  "bracketToken s =
     (case s of
        [] \<Rightarrow> False
      | a # m \<Rightarrow> a = LBRACKET \<and> 2 \<le> length m \<and> last m = RBRACKET
                 \<and> list_all (\<lambda>c. \<not> isLineTerminator c) (butlast m))"

definition normalize_reference :: "jsstring \<Rightarrow> jsstring" where
  "normalize_reference raw =
     (let s = trim raw
      in if hasScheme s then s
         else if nestedPath s \<or> rootPath s \<or> inPageAnchor s \<or> protocolRelative s \<or> bracketToken s
         then s
         else js ''http://'' @ s)"

section \<open>Example sessions\<close>

text \<open>
  The document \<^verbatim>\<open>see <a href="http://x.com">text</a> now\<close>, a selection of
  \<^verbatim>\<open>see\<close> and one inside the annotation.
\<close>

definition example_doc :: "inline list" where
  "example_doc =
     [Plain (js ''see ''), Anchor (Some (js ''http://x.com'')) None (js ''text''),
      Plain (js '' now'')]"

definition on_plain :: snapshot where
  "on_plain = \<lparr>sel_node = 0, sel_from = 0, sel_to = 3\<rparr>"

definition on_link :: snapshot where
  "on_link = \<lparr>sel_node = 1, sel_from = 1, sel_to = 3\<rparr>"

text \<open>
  A document whose annotation has the attribute value \<^verbatim>\<open>"null"\<close>.
\<close>

definition null_doc :: "inline list" where
  "null_doc = [Anchor (Some (js ''null'')) (Some (js ''T'')) (js ''x'')]"

definition on_null :: snapshot where
  "on_null = \<lparr>sel_node = 0, sel_from = 0, sel_to = 1\<rparr>"

text \<open>
  A document whose annotation has a line feed in its \<^verbatim>\<open>href\<close>, the string
  \<^verbatim>\<open>"a\nb"\<close> of the source language.
\<close>

definition newline_doc :: "inline list" where
  "newline_doc = [Anchor (Some [0x0061, 0x000A, 0x0062]) None (js ''x'')]"

text \<open>
  The tool after \<^verbatim>\<open>render\<close> and \<^verbatim>\<open>renderActions\<close>: nothing opened, nothing
  saved, no call made.
\<close>

definition rendered :: "inline list \<Rightarrow> snapshot option \<Rightarrow> tool" where
  "rendered d sel =
     \<lparr>doc = d, live = sel, selection = new_SelectionUtils, inputOpened = False,
      linkValue = [], titleValue = [], rootShowed = False, linkShowed = False,
      titleShowed = False, buttonUnlink = False, buttonActive = False, calls = []\<rparr>"

text \<open>
  A session opened by a click on the tool over plain text, one opened by
  \<^verbatim>\<open>checkState\<close> inside the annotation, and the user typing into the inputs.
\<close>

definition opened_new :: tool where
  "opened_new = surround (Some on_plain) (rendered example_doc (Some on_plain))"

definition opened_editing :: tool where
  "opened_editing = snd (checkState (rendered example_doc (Some on_link)))"

definition typed :: "jsstring \<Rightarrow> jsstring \<Rightarrow> tool \<Rightarrow> tool" where
  "typed l t s = s\<lparr>linkValue := l, titleValue := t\<rparr>"

section \<open>Properties of normalisation\<close>

lemmas char_defs = js_def SLASH_def COLON_def HASH_def LBRACKET_def RBRACKET_def isWhiteSpace_def isWordChar_def isLineTerminator_def

lemmas pattern_defs = protocolPattern_def internalPattern_def protocolRelativePattern_def escapedUrlPattern_def Lit_def Some1_def Maybe_def

subsection \<open>trim\<close>

lemma last_dropWhile: "dropWhile P xs \<noteq> [] \<Longrightarrow> last (dropWhile P xs) = last xs"
  by (induction xs) (auto split: if_splits)

lemma trim_ends:
  "trim s = [] \<or> (\<not> isWhiteSpace (hd (trim s)) \<and> \<not> isWhiteSpace (last (trim s)))"
proof (cases "trim s = []")
  case True
  then show ?thesis by simp
next
  case False
  define d where "d = dropWhile isWhiteSpace s"
  define e where "e = dropWhile isWhiteSpace (rev d)"
  have t: "trim s = rev e" by (simp add: trim_def d_def e_def)
  with False have ne: "e \<noteq> []" by simp
  then have dne: "d \<noteq> []" by (auto simp: e_def)
  have "\<not> isWhiteSpace (hd e)" using ne unfolding e_def by (rule hd_dropWhile)
  then have l: "\<not> isWhiteSpace (last (trim s))" using ne by (simp add: t last_rev)
  have "last e = last (rev d)" using ne unfolding e_def by (rule last_dropWhile)
  then have "hd (trim s) = hd d" using ne dne by (simp add: t hd_rev last_rev)
  moreover have "\<not> isWhiteSpace (hd d)" using dne unfolding d_def by (rule hd_dropWhile)
  ultimately show ?thesis using l by simp
qed

lemma trim_fixed:
  assumes "s = [] \<or> (\<not> isWhiteSpace (hd s) \<and> \<not> isWhiteSpace (last s))"
  shows "trim s = s"
proof (cases s)
  case Nil
  then show ?thesis by (simp add: trim_def)
next
  case (Cons a as)
  with assms have h: "\<not> isWhiteSpace a" and l: "\<not> isWhiteSpace (last s)" by auto
  have 1: "dropWhile isWhiteSpace s = s" using h Cons by simp
  obtain x xs where r: "rev s = x # xs" using Cons by (cases "rev s") auto
  have "hd (rev s) = last s" using Cons by (simp add: hd_rev)
  then have "\<not> isWhiteSpace x" using l by (simp add: r)
  then have 2: "dropWhile isWhiteSpace (rev s) = rev s" by (simp add: r)
  show ?thesis by (simp add: trim_def 1 2)
qed

lemma trim_trim: "trim (trim s) = trim s"
  by (rule trim_fixed) (rule trim_ends)

lemma trim_no_space:
  assumes "\<forall>c \<in> set l. \<not> isWhiteSpace c"
  shows "trim l = l"
proof (rule trim_fixed)
  show "l = [] \<or> (\<not> isWhiteSpace (hd l) \<and> \<not> isWhiteSpace (last l))"
    using assms by (cases l) auto
qed

subsection \<open>Idempotence\<close>

lemma protocol_http: "test_start protocolPattern (js ''http://'' @ t)"
  by (simp add: char_defs pattern_defs)

lemma trim_http: "trim (js ''http://'' @ trim s) = js ''http://'' @ trim s"
proof (rule trim_fixed)
  have h: "\<not> isWhiteSpace (hd (js ''http://'' @ trim s))" by (simp add: char_defs)
  have "\<not> isWhiteSpace (last (js ''http://'' @ trim s))"
  proof (cases "trim s = []")
    case True
    then show ?thesis by (simp add: char_defs)
  next
    case False
    then show ?thesis using trim_ends [of s] by simp
  qed
  with h show "js ''http://'' @ trim s = [] \<or>
    (\<not> isWhiteSpace (hd (js ''http://'' @ trim s)) \<and> \<not> isWhiteSpace (last (js ''http://'' @ trim s)))"
    by simp
qed

lemma addProtocol_cases: "addProtocol t = t \<or> addProtocol t = js ''http://'' @ t"
  by (simp add: addProtocol_def Let_def)

text \<open>
  Claim C3. Normalisation is idempotent: for every string \<open>s\<close>, preparing a prepared
  link changes nothing, \<open>prepareLink (prepareLink s) = prepareLink s\<close>, where
  \<open>prepareLink\<close> trims and then adds the protocol.
\<close>

theorem prepareLink_idempotent: "prepareLink (prepareLink s) = prepareLink s"
proof -
  define t where "t = trim s"
  consider (same) "addProtocol t = t" | (pre) "addProtocol t = js ''http://'' @ t"
    using addProtocol_cases by blast
  then show ?thesis
  proof cases
    case same
    then show ?thesis by (simp add: prepareLink_def t_def [symmetric]) (simp add: t_def trim_trim same [unfolded t_def])
  next
    case pre
    have "prepareLink (prepareLink s) = addProtocol (trim (js ''http://'' @ trim s))"
      using pre by (simp add: prepareLink_def t_def)
    also have "\<dots> = addProtocol (js ''http://'' @ trim s)" by (simp only: trim_http)
    also have "\<dots> = js ''http://'' @ trim s"
      using protocol_http [of "trim s"] by (simp add: addProtocol_def)
    finally show ?thesis using pre by (simp add: prepareLink_def t_def)
  qed
qed

subsection \<open>The matcher is right\<close>

lemma test_start_nullable: "nullable r \<Longrightarrow> test_start r s"
  by (cases s) simp_all

lemma test_start_Never: "\<not> test_start Never s"
  by (induction s) simp_all

lemma nullable_lang: "nullable r \<longleftrightarrow> [] \<in> lang r"
  by (induction r) (auto intro: star_empty)

lemma star_Cons:
  assumes "x \<in> star A" and "x = c # w"
  shows "\<exists>u v. w = u @ v \<and> c # u \<in> A \<and> v \<in> star A"
  using assms
proof (induction arbitrary: w rule: star.induct)
  case star_empty
  then show ?case by simp
next
  case (star_more u v)
  show ?case
  proof (cases u)
    case Nil
    with star_more show ?thesis by simp
  next
    case (Cons a u')
    with star_more.prems have "a = c" and "w = u' @ v" by simp_all
    with Cons star_more.hyps show ?thesis by blast
  qed
qed

lemma lang_deriv: "w \<in> lang (deriv c r) \<longleftrightarrow> c # w \<in> lang r"
proof (induction r arbitrary: w)
  case (Cat r s)
  then show ?case by (auto simp: nullable_lang Cons_eq_append_conv)
next
  case (Many r)
  show ?case
  proof
    assume "w \<in> lang (deriv c (Many r))"
    then obtain u v where "w = u @ v" "c # u \<in> lang r" "v \<in> star (lang r)"
      using Many by auto
    then have "(c # u) @ v \<in> star (lang r)" by (intro star_more)
    then show "c # w \<in> lang (Many r)" using \<open>w = u @ v\<close> by simp
  next
    assume "c # w \<in> lang (Many r)"
    then have "c # w \<in> star (lang r)" by simp
    then obtain u v where "w = u @ v" "c # u \<in> lang r" "v \<in> star (lang r)"
      using star_Cons by blast
    then show "w \<in> lang (deriv c (Many r))" using Many by auto
  qed
qed auto

lemma test_whole_lang: "test_whole r s \<longleftrightarrow> s \<in> lang r"
  by (induction s arbitrary: r) (simp_all add: nullable_lang lang_deriv)

lemma test_start_lang: "test_start r s \<longleftrightarrow> (\<exists>u v. s = u @ v \<and> u \<in> lang r)"
proof (induction s arbitrary: r)
  case Nil
  then show ?case by (simp add: nullable_lang)
next
  case (Cons c cs)
  show ?case
  proof
    assume "test_start r (c # cs)"
    then consider "[] \<in> lang r" | u v where "cs = u @ v" "c # u \<in> lang r"
      using Cons by (auto simp: nullable_lang lang_deriv)
    then show "\<exists>u v. c # cs = u @ v \<and> u \<in> lang r"
    proof cases
      case 1
      then show ?thesis by (intro exI [of _ "[]"] exI [of _ "c # cs"]) simp
    next
      case 2
      then show ?thesis by (intro exI [of _ "c # u"] exI [of _ v]) simp
    qed
  next
    assume "\<exists>u v. c # cs = u @ v \<and> u \<in> lang r"
    then obtain u v where uv: "c # cs = u @ v" "u \<in> lang r" by blast
    show "test_start r (c # cs)"
    proof (cases u)
      case Nil
      with uv have "nullable r" by (simp add: nullable_lang)
      then show ?thesis by simp
    next
      case (Cons a u')
      with uv have "cs = u' @ v" "c # u' \<in> lang r" by simp_all
      then show ?thesis using Cons.IH [of "deriv c r"] by (auto simp: lang_deriv)
    qed
  qed
qed

lemma star_Class: "star {[c] | c. p c} = {w. list_all p w}"
proof (intro equalityI subsetI)
  fix w assume "w \<in> star {[c] | c. p c}"
  then show "w \<in> {w. list_all p w}" by (induction rule: star.induct) auto
next
  fix w assume "w \<in> {w. list_all p w}"
  then have "list_all p w" by simp
  then show "w \<in> star {[c] | c. p c}"
  proof (induction w)
    case Nil
    show ?case by (rule star_empty)
  next
    case (Cons c w)
    then have "[c] \<in> {[c] | c. p c}" and "w \<in> star {[c] | c. p c}" by auto
    then have "[c] @ w \<in> star {[c] | c. p c}" by (rule star_more)
    then show ?case by simp
  qed
qed

lemma lang_Some1_Class: "lang (Some1 (Class p)) = {w. w \<noteq> [] \<and> list_all p w}"
proof (intro equalityI subsetI)
  fix w assume "w \<in> lang (Some1 (Class p))"
  then show "w \<in> {w. w \<noteq> [] \<and> list_all p w}" by (auto simp: Some1_def star_Class)
next
  fix w assume "w \<in> {w. w \<noteq> [] \<and> list_all p w}"
  then obtain c w' where "w = [c] @ w'" "p c" "list_all p w'" by (cases w) auto
  then have "\<exists>u v. w = u @ v \<and> (\<exists>c. u = [c] \<and> p c) \<and> list_all p v" by blast
  then show "w \<in> lang (Some1 (Class p))" by (simp add: Some1_def star_Class)
qed

lemma Lit_lang: "lang (Lit a) = {[a]}"
  by (auto simp: Lit_def)

lemma Cat_langI: "u \<in> lang r \<Longrightarrow> v \<in> lang s \<Longrightarrow> u @ v \<in> lang (Cat r s)"
  by auto

subsection \<open>validateURL\<close>

lemma test_any_Class: "test_any (Class p) s \<longleftrightarrow> (\<exists>c \<in> set s. p c)"
  by (induction s) (auto simp: test_start_nullable test_start_Never)

lemma validateURL_iff: "validateURL str \<longleftrightarrow> (\<forall>c \<in> set str. \<not> isWhiteSpace c)"
  by (simp add: validateURL_def test_any_Class)

subsection \<open>The five shapes and the scheme\<close>

lemma protocol_prefix:
  "test_start protocolPattern s \<longleftrightarrow>
     (\<exists>w rest. s = w @ COLON # rest \<and> w \<noteq> [] \<and> list_all isWordChar w)"
proof
  assume "test_start protocolPattern s"
  then obtain u v where "s = u @ v" "u \<in> lang protocolPattern"
    by (auto simp: test_start_lang)
  then obtain w m where "u = w @ COLON # m" "w \<noteq> []" "list_all isWordChar w"
    by (auto simp: protocolPattern_def lang_Some1_Class Lit_lang)
  with \<open>s = u @ v\<close> have "s = w @ COLON # (m @ v)" by simp
  with \<open>w \<noteq> []\<close> \<open>list_all isWordChar w\<close> show
    "\<exists>w rest. s = w @ COLON # rest \<and> w \<noteq> [] \<and> list_all isWordChar w" by blast
next
  assume "\<exists>w rest. s = w @ COLON # rest \<and> w \<noteq> [] \<and> list_all isWordChar w"
  then obtain w rest where s: "s = w @ COLON # rest" and w: "w \<noteq> []" "list_all isWordChar w"
    by blast
  have "w \<in> lang (Some1 (Class isWordChar))" using w by (simp add: lang_Some1_Class)
  moreover have "[COLON] @ [] \<in> lang (Cat (Lit COLON) (Maybe (Cat (Lit SLASH) (Lit SLASH))))"
    by (rule Cat_langI) (simp_all add: Lit_lang Maybe_def)
  ultimately have "w @ [COLON] @ [] \<in> lang protocolPattern"
    unfolding protocolPattern_def by (rule Cat_langI)
  moreover have "s = (w @ [COLON] @ []) @ rest" by (simp add: s)
  ultimately show "test_start protocolPattern s" unfolding test_start_lang by blast
qed

lemma COLON_not_word: "\<not> isWordChar COLON"
  by (simp add: COLON_def isWordChar_def)

lemma protocol_hasScheme: "test_start protocolPattern s \<longleftrightarrow> hasScheme s"
proof
  assume "test_start protocolPattern s"
  then obtain w rest where s: "s = w @ COLON # rest" and w: "w \<noteq> []" "list_all isWordChar w"
    by (auto simp: protocol_prefix)
  have all: "\<And>x. x \<in> set w \<Longrightarrow> isWordChar x" using w(2) by (simp add: list_all_iff)
  have "takeWhile isWordChar s = w"
    by (simp add: s takeWhile_append2 [OF all] COLON_not_word)
  moreover have "dropWhile isWordChar s = COLON # rest"
    by (simp add: s dropWhile_append2 [OF all] COLON_not_word)
  ultimately show "hasScheme s" using w(1) by (simp add: hasScheme_def)
next
  assume h: "hasScheme s"
  then obtain rest where d: "dropWhile isWordChar s = COLON # rest"
    by (cases "dropWhile isWordChar s") (auto simp: hasScheme_def)
  have "s = takeWhile isWordChar s @ COLON # rest"
    using takeWhile_dropWhile_id [of isWordChar s] by (simp add: d)
  moreover have "list_all isWordChar (takeWhile isWordChar s)"
    by (auto simp: list_all_iff dest: set_takeWhileD)
  ultimately show "test_start protocolPattern s"
    using h unfolding protocol_prefix hasScheme_def by blast
qed

lemma internal_nestedPath: "test_start internalPattern s \<longleftrightarrow> nestedPath s"
proof -
  have "lang internalPattern = {[SLASH, x] | x. x \<noteq> SLASH \<and> \<not> isWhiteSpace x}"
    by (auto simp: internalPattern_def Lit_lang)
  then have "test_start internalPattern s \<longleftrightarrow>
      (\<exists>u v. s = u @ v \<and> (\<exists>x. u = [SLASH, x] \<and> x \<noteq> SLASH \<and> \<not> isWhiteSpace x))"
    by (simp add: test_start_lang)
  also have "\<dots> \<longleftrightarrow> (\<exists>x v. s = [SLASH, x] @ v \<and> x \<noteq> SLASH \<and> \<not> isWhiteSpace x)"
    by blast
  also have "\<dots> \<longleftrightarrow> nestedPath s"
    by (auto simp: nestedPath_def split: list.splits)
  finally show ?thesis .
qed

lemma relative_protocolRelative: "test_start protocolRelativePattern s \<longleftrightarrow> protocolRelative s"
proof -
  have "lang protocolRelativePattern = {[SLASH, SLASH, x] | x. x \<noteq> SLASH \<and> \<not> isWhiteSpace x}"
    by (auto simp: protocolRelativePattern_def Lit_lang)
  then have "test_start protocolRelativePattern s \<longleftrightarrow>
      (\<exists>u v. s = u @ v \<and> (\<exists>x. u = [SLASH, SLASH, x] \<and> x \<noteq> SLASH \<and> \<not> isWhiteSpace x))"
    by (simp add: test_start_lang)
  also have "\<dots> \<longleftrightarrow> (\<exists>x v. s = [SLASH, SLASH, x] @ v \<and> x \<noteq> SLASH \<and> \<not> isWhiteSpace x)"
    by blast
  also have "\<dots> \<longleftrightarrow> protocolRelative s"
    by (auto simp: protocolRelative_def split: list.splits)
  finally show ?thesis .
qed

lemma escaped_bracketToken: "test_whole escapedUrlPattern s \<longleftrightarrow> bracketToken s"
proof -
  have "test_whole escapedUrlPattern s \<longleftrightarrow>
      (\<exists>m. s = LBRACKET # m @ [RBRACKET] \<and> m \<noteq> [] \<and> list_all (\<lambda>c. \<not> isLineTerminator c) m)"
    by (auto simp: test_whole_lang escapedUrlPattern_def lang_Some1_Class Lit_lang)
  also have "\<dots> \<longleftrightarrow> bracketToken s"
  proof
    assume "\<exists>m. s = LBRACKET # m @ [RBRACKET] \<and> m \<noteq> [] \<and> list_all (\<lambda>c. \<not> isLineTerminator c) m"
    then obtain m where "s = LBRACKET # m @ [RBRACKET]" "m \<noteq> []"
      "list_all (\<lambda>c. \<not> isLineTerminator c) m" by blast
    then show "bracketToken s"
      by (cases m) (simp_all add: bracketToken_def)
  next
    assume b: "bracketToken s"
    then obtain m' where s: "s = LBRACKET # m'" and l: "2 \<le> length m'" and e: "last m' = RBRACKET"
      and a: "list_all (\<lambda>c. \<not> isLineTerminator c) (butlast m')"
      by (cases s) (auto simp: bracketToken_def)
    from l have ne: "m' \<noteq> []" by auto
    then have "m' = butlast m' @ [RBRACKET]" using e append_butlast_last_id [of m'] by simp
    moreover from l have "butlast m' \<noteq> []" by (cases m' rule: rev_cases) auto
    ultimately show "\<exists>m. s = LBRACKET # m @ [RBRACKET] \<and> m \<noteq> [] \<and> list_all (\<lambda>c. \<not> isLineTerminator c) m"
      using s a by metis
  qed
  finally show ?thesis .
qed

lemma root_rootPath: "(length link = 1 \<and> link ! 0 = SLASH) \<longleftrightarrow> rootPath link"
  by (cases link) (auto simp: rootPath_def)

lemma anchor_inPageAnchor: "take 1 link = [HASH] \<longleftrightarrow> inPageAnchor link"
  by (cases link) (auto simp: inPageAnchor_def)

lemma prepareLink_reference: "prepareLink s = normalize_reference s"
  unfolding prepareLink_def addProtocol_def normalize_reference_def Let_def
    protocol_hasScheme internal_nestedPath relative_protocolRelative escaped_bracketToken
    root_rootPath anchor_inPageAnchor
  by simp

text \<open>
  Claim C2, as the spec words it, fails: \<^verbatim>\<open>"/ a"\<close> is a slash followed by a
  character that is not a second slash, so the reference of the spec returns it
  unchanged; the source asks for a character that is neither a slash nor white
  space and prepends \<^verbatim>\<open>http://\<close>. Likewise \<^verbatim>\<open>"///a"\<close>, which passes
  \<open>validateURL\<close>, is two slashes followed by a character, and the source prepends
  \<^verbatim>\<open>http://\<close> because that character is a slash.
\<close>

theorem normalize_spec_counterexample:
  "prepareLink (js ''/ a'') = js ''http:/// a'' \<and> normalize_spec (js ''/ a'') = js ''/ a''
   \<and> validateURL (js ''///a'')
   \<and> prepareLink (js ''///a'') = js ''http://///a''
   \<and> normalize_spec (js ''///a'') = js ''///a''"
proof -
  have t: "trim (js ''/ a'') = js ''/ a''" by (simp add: trim_def char_defs)
  have 1: "prepareLink (js ''/ a'') = js ''http:/// a''"
    by (simp add: prepareLink_def addProtocol_def t) (simp add: char_defs pattern_defs)
  have 2: "normalize_spec (js ''/ a'') = js ''/ a''"
    by (simp add: normalize_spec_def t) (simp add: char_defs hasScheme_def spec_nestedPath_def)
  have u: "trim (js ''///a'') = js ''///a''" by (simp add: trim_def char_defs)
  have 3: "prepareLink (js ''///a'') = js ''http://///a''"
    by (simp add: prepareLink_def addProtocol_def u) (simp add: char_defs pattern_defs)
  have 4: "normalize_spec (js ''///a'') = js ''///a''"
    by (simp add: normalize_spec_def u)
       (simp add: char_defs hasScheme_def spec_nestedPath_def spec_protocolRelative_def)
  have 5: "validateURL (js ''///a'')" by (simp add: validateURL_def char_defs)
  show ?thesis using 1 2 3 4 5 by simp
qed

text \<open>
  Claim C2, amended. \<open>prepareLink\<close> equals the reference in which, after trimming,
  a string that starts with one or more of \<^verbatim>\<open>[A-Za-z0-9_]\<close> and a colon is
  returned unchanged; otherwise a string is returned unchanged when it is a
  slash followed by a character that is neither a slash nor white space, or
  exactly \<^verbatim>\<open>/\<close>, or starts with \<^verbatim>\<open>#\<close>, or is two slashes followed by a
  character that is neither a slash nor white space, or is \<^verbatim>\<open>[\<close>, one or more
  characters none of which is a line terminator, and \<^verbatim>\<open>]\<close>; every other string
  gets \<^verbatim>\<open>http://\<close> prepended. The six examples of the claim hold as stated.
\<close>

theorem prepareLink_normalize_reference:
  "prepareLink s = normalize_reference s
   \<and> prepareLink (js ''vc.ru'') = js ''http://vc.ru''
   \<and> prepareLink (js ''/general'') = js ''/general''
   \<and> prepareLink (js ''/'') = js ''/''
   \<and> prepareLink (js ''#results'') = js ''#results''
   \<and> prepareLink (js ''//cdn.example.com/x'') = js ''//cdn.example.com/x''
   \<and> prepareLink (js ''[token]'') = js ''[token]''"
proof -
  have 1: "prepareLink (js ''vc.ru'') = js ''http://vc.ru''"
    by (simp add: prepareLink_def addProtocol_def trim_def char_defs pattern_defs)
  have 2: "prepareLink (js ''/general'') = js ''/general''"
    by (simp add: prepareLink_def addProtocol_def trim_def char_defs pattern_defs)
  have 3: "prepareLink (js ''/'') = js ''/''"
    by (simp add: prepareLink_def addProtocol_def trim_def char_defs pattern_defs)
  have 4: "prepareLink (js ''#results'') = js ''#results''"
    by (simp add: prepareLink_def addProtocol_def trim_def char_defs pattern_defs)
  have 5: "prepareLink (js ''//cdn.example.com/x'') = js ''//cdn.example.com/x''"
    by (simp add: prepareLink_def addProtocol_def trim_def char_defs pattern_defs)
  have 6: "prepareLink (js ''[token]'') = js ''[token]''"
    by (simp add: prepareLink_def addProtocol_def trim_def char_defs pattern_defs)
  show ?thesis using prepareLink_reference 1 2 3 4 5 6 by simp
qed

section \<open>Properties of the session\<close>

lemmas selection_defs = called_def selection_setFakeBackground_def selection_removeFakeBackground_def
  selection_save_def selection_restore_def selection_clearSaved_def save_def restore_def
  clearSaved_def setFakeBackground_def removeFakeBackground_def new_SelectionUtils_def

lemmas example_defs = example_doc_def on_plain_def on_link_def rendered_def typed_def

lemma opened_new_eq:
  "opened_new =
     \<lparr>doc = example_doc, live = Some on_plain,
      selection = \<lparr>savedSelectionRange = Some on_plain, isFakeBackgroundEnabled = True\<rparr>,
      inputOpened = True, linkValue = [], titleValue = [], rootShowed = True,
      linkShowed = True, titleShowed = True, buttonUnlink = False, buttonActive = False,
      calls = [SetFakeBackground, Save, Focus]\<rparr>"
  by (simp add: opened_new_def surround_def toggleActions_def openActions_def findParentTag_def
      selection_defs example_defs)

lemma opened_editing_eq:
  "opened_editing =
     \<lparr>doc = example_doc, live = Some on_link,
      selection = \<lparr>savedSelectionRange = Some on_link, isFakeBackgroundEnabled = False\<rparr>,
      inputOpened = True, linkValue = js ''http://x.com'', titleValue = [], rootShowed = True,
      linkShowed = True, titleShowed = True, buttonUnlink = True, buttonActive = True,
      calls = [Save]\<rparr>"
  by (simp add: opened_editing_def checkState_def openActions_def findParentTag_def
      selection_defs example_defs input_value_def js_def)

subsection \<open>findParentTag and unlink\<close>

lemma findParentTag_Plain:
  "live s = Some r \<Longrightarrow> doc s ! sel_node r = Plain x \<Longrightarrow> findParentTag s = None"
  by (simp add: findParentTag_def)

lemma findParentTag_SomeD:
  "findParentTag s = Some a \<Longrightarrow>
     a < length (doc s) \<and> (\<exists>r. live s = Some r \<and> sel_node r = a)
     \<and> (\<exists>h t x. doc s ! a = Anchor h t x)"
  by (auto simp: findParentTag_def split: option.splits if_splits inline.splits)

lemma findParentTag_eq:
  "doc t = doc s \<Longrightarrow> live t = live s \<Longrightarrow> findParentTag t = findParentTag s"
  by (simp add: findParentTag_def split: option.splits)

lemma text_of_unwrap: "a < length xs \<Longrightarrow> map text_of (xs[a := Plain (text_of (xs ! a))]) = map text_of xs"
  by (simp add: map_update list_update_same_conv)

lemma unlink_text: "map text_of (doc (unlink s)) = map text_of (doc s)"
proof (cases "findParentTag s")
  case None
  then show ?thesis by (simp add: unlink_def execCommand_unlink_def called_def)
next
  case (Some a)
  then have "a < length (doc s)" by (simp add: findParentTag_SomeD)
  then show ?thesis
    using Some by (simp add: unlink_def execCommand_unlink_def called_def text_of_unwrap)
qed

lemma unlink_none: "findParentTag (unlink s) = None"
  by (auto simp: unlink_def execCommand_unlink_def called_def findParentTag_def
      split: option.splits if_splits inline.splits)

lemma unlink_live: "live (unlink s) = live s"
  by (simp add: unlink_def execCommand_unlink_def called_def split: option.splits)

lemma unlink_other:
  "selection (unlink s) = selection s \<and> calls (unlink s) = calls s @ [ExecCommand (js ''unlink'') None]"
  by (simp add: unlink_def execCommand_unlink_def called_def split: option.splits)

subsection \<open>closeActions\<close>

lemma closeActions_frame:
  "doc (closeActions b s) = doc s \<and> \<not> inputOpened (closeActions b s)
   \<and> linkValue (closeActions b s) = [] \<and> titleValue (closeActions b s) = []
   \<and> buttonUnlink (closeActions b s) = buttonUnlink s
   \<and> buttonActive (closeActions b s) = buttonActive s
   \<and> \<not> isFakeBackgroundEnabled (selection (closeActions b s))"
  by (simp add: closeActions_def selection_defs Let_def)

lemma closeActions_calls:
  "calls (closeActions b s) = calls s
     @ (if isFakeBackgroundEnabled (selection s)
        then [CurrentSave, Restore, RemoveFakeBackground, CurrentRestore] else [])
     @ (if b then [ClearSaved] else [])"
  by (simp add: closeActions_def selection_defs Let_def)

lemma closeActions_live:
  "live s \<noteq> None \<or> savedSelectionRange (selection s) = None \<Longrightarrow> live (closeActions b s) = live s"
  by (auto simp: closeActions_def selection_defs Let_def split: option.splits)

text \<open>
  Claim C7, as stated, fails: in a session opened over \<^verbatim>\<open>see\<close> with the fake
  background enabled and no selection active at the close, nothing is there to
  save first, so after the close the saved selection is the active one and not
  what was active before, which was none.
\<close>

theorem closeActions_selection_counterexample:
  "isFakeBackgroundEnabled (selection (opened_new\<lparr>live := None\<rparr>))
   \<and> savedSelectionRange (selection (opened_new\<lparr>live := None\<rparr>)) = Some on_plain
   \<and> live (opened_new\<lparr>live := None\<rparr>) = None
   \<and> live (closeActions True (opened_new\<lparr>live := None\<rparr>)) = Some on_plain
   \<and> live (closeActions True (opened_new\<lparr>live := None\<rparr>)) \<noteq> live (opened_new\<lparr>live := None\<rparr>)"
  by (simp add: opened_new_eq closeActions_def selection_defs Let_def)

text \<open>
  Claim C7, amended. When the input is closed while the fake background is
  enabled, \<open>closeActions\<close> first saves the active selection, if there is one, in
  a tracker of its own, then restores the saved selection and removes the fake
  background, then restores what it saved first, in this order. After the close
  a selection that was active before it is active again, whatever the saved one
  was; when none was active, the saved selection is the active one, and no
  selection is active when none was saved either. The fake background is off,
  and the saved selection is cleared exactly when the caller asks for it.
\<close>

theorem closeActions_selection:
  assumes "isFakeBackgroundEnabled (selection s)"
  shows "calls (closeActions b s) =
      calls s @ [CurrentSave, Restore, RemoveFakeBackground, CurrentRestore]
        @ (if b then [ClearSaved] else [])
    \<and> live (closeActions b s) =
        (case live s of Some r \<Rightarrow> Some r | None \<Rightarrow> savedSelectionRange (selection s))
    \<and> \<not> isFakeBackgroundEnabled (selection (closeActions b s))
    \<and> savedSelectionRange (selection (closeActions b s)) =
        (if b then None else savedSelectionRange (selection s))"
  using assms
  by (simp add: closeActions_def selection_defs Let_def split: option.splits)

text \<open>
  Claim C7, amended, at a session opened over \<^verbatim>\<open>see\<close>: after the user has
  selected inside the annotation, the saved selection differs from the active
  one and the active one is kept; with no selection active, the saved one
  becomes active.
\<close>

theorem closeActions_selection_witness:
  "isFakeBackgroundEnabled (selection (opened_new\<lparr>live := Some on_link\<rparr>))
   \<and> savedSelectionRange (selection (opened_new\<lparr>live := Some on_link\<rparr>)) = Some on_plain
   \<and> on_plain \<noteq> on_link
   \<and> live (closeActions True (opened_new\<lparr>live := Some on_link\<rparr>)) = Some on_link
   \<and> calls (closeActions True (opened_new\<lparr>live := Some on_link\<rparr>)) =
       [SetFakeBackground, Save, Focus, CurrentSave, Restore, RemoveFakeBackground,
        CurrentRestore, ClearSaved]
   \<and> savedSelectionRange (selection (closeActions True (opened_new\<lparr>live := Some on_link\<rparr>)))
       = None
   \<and> isFakeBackgroundEnabled (selection (opened_new\<lparr>live := None\<rparr>))
   \<and> live (closeActions False (opened_new\<lparr>live := None\<rparr>)) = Some on_plain
   \<and> savedSelectionRange (selection (closeActions False (opened_new\<lparr>live := None\<rparr>)))
       = Some on_plain"
proof -
  have 1: "isFakeBackgroundEnabled (selection (opened_new\<lparr>live := Some on_link\<rparr>))"
    and 2: "isFakeBackgroundEnabled (selection (opened_new\<lparr>live := None\<rparr>))"
    by (simp_all add: opened_new_eq)
  show ?thesis
    using closeActions_selection [OF 1, of True] closeActions_selection [OF 2, of False]
    by (simp add: opened_new_eq on_plain_def on_link_def)
qed

text \<open>
  Claim C9. \<open>clear\<close>, and \<open>surround\<close> with a null range while the input is
  open, close the input and leave the document as it was; the calls they make
  are those of the selection tracker only, none of them a document command,
  and the marks of the button stay as they were.
\<close>

theorem closing_frame:
  "doc (clear s) = doc s \<and> \<not> inputOpened (clear s)
   \<and> linkValue (clear s) = [] \<and> titleValue (clear s) = []
   \<and> buttonUnlink (clear s) = buttonUnlink s \<and> buttonActive (clear s) = buttonActive s
   \<and> calls (clear s) = calls s
       @ (if isFakeBackgroundEnabled (selection s)
          then [CurrentSave, Restore, RemoveFakeBackground, CurrentRestore] else [])
       @ [ClearSaved]
   \<and> (inputOpened s \<longrightarrow>
        doc (surround None s) = doc s \<and> \<not> inputOpened (surround None s)
        \<and> linkValue (surround None s) = [] \<and> titleValue (surround None s) = []
        \<and> buttonUnlink (surround None s) = buttonUnlink s
        \<and> buttonActive (surround None s) = buttonActive s
        \<and> calls (surround None s) = calls s
            @ (if isFakeBackgroundEnabled (selection s)
               then [CurrentSave, Restore, RemoveFakeBackground, CurrentRestore] else []))"
  by (simp add: clear_def surround_def toggleActions_def closeActions_frame closeActions_calls)

text \<open>
  Claim C9 at a session opened over \<^verbatim>\<open>see\<close>.
\<close>

theorem closing_frame_witness:
  "inputOpened opened_new
   \<and> doc (surround None opened_new) = example_doc
   \<and> \<not> inputOpened (surround None opened_new)
   \<and> calls (surround None opened_new) =
       [SetFakeBackground, Save, Focus, CurrentSave, Restore, RemoveFakeBackground, CurrentRestore]
   \<and> doc (clear opened_new) = example_doc
   \<and> \<not> inputOpened (clear opened_new)"
  using closing_frame [of opened_new]
  by (simp add: opened_new_eq)

subsection \<open>checkState\<close>

text \<open>
  Claim C10, as stated, fails: an annotation whose \<^verbatim>\<open>href\<close> is \<^verbatim>\<open>"a\nb"\<close> is not
  \<^verbatim>\<open>"null"\<close>, yet the link input does not hold it as it is: the text input
  drops the line feed and holds \<^verbatim>\<open>"ab"\<close>.
\<close>

theorem checkState_prefill_counterexample:
  "findParentTag (rendered newline_doc (Some on_null)) = Some 0
   \<and> href_of (doc (rendered newline_doc (Some on_null)) ! 0) = Some [0x0061, 0x000A, 0x0062]
   \<and> [0x0061, 0x000A, 0x0062] \<noteq> js ''null''
   \<and> linkValue (snd (checkState (rendered newline_doc (Some on_null)))) = js ''ab''
   \<and> linkValue (snd (checkState (rendered newline_doc (Some on_null))))
       \<noteq> [0x0061, 0x000A, 0x0062]"
  by (simp add: checkState_def openActions_def findParentTag_def selection_defs input_value_def
      rendered_def newline_doc_def on_null_def js_def)

text \<open>
  Claim C10, amended. When \<open>checkState\<close> finds an enclosing annotation it opens
  the input and fills the link and title inputs from the attributes \<^verbatim>\<open>href\<close>
  and \<^verbatim>\<open>title\<close>: an absent attribute and the attribute value \<^verbatim>\<open>"null"\<close> both
  give the empty input; every other value, the empty string too, is copied
  with its line feeds and carriage returns removed, so as it is when it has
  none.
\<close>

theorem checkState_prefill:
  assumes "findParentTag s = Some a" and "doc s ! a = Anchor h t x"
  shows "fst (checkState s) \<and> inputOpened (snd (checkState s))
    \<and> linkValue (snd (checkState s)) =
        (case h of
           None \<Rightarrow> []
         | Some v \<Rightarrow> if v = js ''null'' then []
                    else filter (\<lambda>c. c \<noteq> 0x000A \<and> c \<noteq> 0x000D) v)
    \<and> titleValue (snd (checkState s)) =
        (case t of
           None \<Rightarrow> []
         | Some v \<Rightarrow> if v = js ''null'' then []
                    else filter (\<lambda>c. c \<noteq> 0x000A \<and> c \<noteq> 0x000D) v)
    \<and> ((\<forall>v. h = Some v \<and> v \<noteq> js ''null'' \<and> 0x000A \<notin> set v \<and> 0x000D \<notin> set v
           \<longrightarrow> linkValue (snd (checkState s)) = v)
       \<and> (\<forall>v. t = Some v \<and> v \<noteq> js ''null'' \<and> 0x000A \<notin> set v \<and> 0x000D \<notin> set v
           \<longrightarrow> titleValue (snd (checkState s)) = v))"
proof -
  have keep: "filter (\<lambda>c. c \<noteq> 0x000A \<and> c \<noteq> 0x000D) v = v"
    if "0x000A \<notin> set v" "0x000D \<notin> set v" for v :: jsstring
    using that by (induction v) auto
  show ?thesis
    using assms
    by (auto simp: checkState_def openActions_def selection_defs input_value_def Let_def keep
        split: option.splits)
qed

text \<open>
  Claim C10, amended, at an annotation with \<^verbatim>\<open>href="null"\<close> and \<^verbatim>\<open>title="T"\<close>, and
  at one with \<^verbatim>\<open>href="a\nb"\<close> and no title.
\<close>

theorem checkState_prefill_witness:
  "findParentTag (rendered null_doc (Some on_null)) = Some 0
   \<and> fst (checkState (rendered null_doc (Some on_null)))
   \<and> linkValue (snd (checkState (rendered null_doc (Some on_null)))) = []
   \<and> titleValue (snd (checkState (rendered null_doc (Some on_null)))) = js ''T''
   \<and> findParentTag (rendered newline_doc (Some on_null)) = Some 0
   \<and> linkValue (snd (checkState (rendered newline_doc (Some on_null)))) = js ''ab''
   \<and> titleValue (snd (checkState (rendered newline_doc (Some on_null)))) = []"
proof -
  have 1: "findParentTag (rendered null_doc (Some on_null)) = Some 0"
    by (simp add: findParentTag_def rendered_def null_doc_def on_null_def)
  have 2: "doc (rendered null_doc (Some on_null)) ! 0 =
      Anchor (Some (js ''null'')) (Some (js ''T'')) (js ''x'')"
    by (simp add: rendered_def null_doc_def)
  have 3: "findParentTag (rendered newline_doc (Some on_null)) = Some 0"
    by (simp add: findParentTag_def rendered_def newline_doc_def on_null_def)
  have 4: "doc (rendered newline_doc (Some on_null)) ! 0 =
      Anchor (Some [0x0061, 0x000A, 0x0062]) None (js ''x'')"
    by (simp add: rendered_def newline_doc_def)
  show ?thesis
    using checkState_prefill [OF 1 2] checkState_prefill [OF 3 4] 1 3
    by (simp add: js_def)
qed

subsection \<open>surround\<close>

text \<open>
  Claim C1, as stated, fails: from the closed state, with the selection inside
  the annotation of the example document, \<open>surround\<close> ends with the input not
  opened, the link input empty, the fake background removed and the annotation
  gone from the document.
\<close>

theorem surround_on_annotation_counterexample:
  "\<not> inputOpened (rendered example_doc (Some on_link))
   \<and> sel_from on_link < sel_to on_link
   \<and> findParentTag (rendered example_doc (Some on_link)) = Some 1
   \<and> \<not> inputOpened (surround (Some on_link) (rendered example_doc (Some on_link)))
   \<and> linkValue (surround (Some on_link) (rendered example_doc (Some on_link))) = []
   \<and> \<not> isFakeBackgroundEnabled (selection (surround (Some on_link) (rendered example_doc (Some on_link))))
   \<and> doc (surround (Some on_link) (rendered example_doc (Some on_link))) =
       [Plain (js ''see ''), Plain (js ''text''), Plain (js '' now'')]"
  by (simp add: surround_def findParentTag_def selection_defs expandToTag_def unlink_def
      execCommand_unlink_def closeActions_def checkState_def Let_def example_defs)

text \<open>
  Claim C1, amended. From the closed state, with the selection inside an
  annotation, \<open>surround\<close> with a range sets the fake background and saves the
  selection, then, having found the annotation, expands the selection to it,
  unlinks it, closes the input and closes the host toolbar: the annotation is
  replaced by its text, no annotation encloses the selection, the input is not
  opened, both inputs are empty, the fake background is off, no selection is
  saved and the button is neither active nor marked unlink.
\<close>

theorem surround_on_annotation:
  assumes "\<not> inputOpened s" and "live s = Some r" and "sel_node r < length (doc s)"
    and "doc s ! sel_node r = Anchor h t x"
  shows "calls (surround (Some rng) s) = calls s @
        [SetFakeBackground, Save, ExpandToTag (sel_node r), ExecCommand (js ''unlink'') None,
         CurrentSave, Restore, RemoveFakeBackground, CurrentRestore, ClearSaved, ToolbarClose]
    \<and> doc (surround (Some rng) s) = (doc s)[sel_node r := Plain x]
    \<and> findParentTag (surround (Some rng) s) = None
    \<and> \<not> inputOpened (surround (Some rng) s)
    \<and> linkValue (surround (Some rng) s) = [] \<and> titleValue (surround (Some rng) s) = []
    \<and> \<not> isFakeBackgroundEnabled (selection (surround (Some rng) s))
    \<and> savedSelectionRange (selection (surround (Some rng) s)) = None
    \<and> \<not> buttonUnlink (surround (Some rng) s) \<and> \<not> buttonActive (surround (Some rng) s)"
  using assms
  by (simp add: surround_def findParentTag_def selection_defs expandToTag_def unlink_def
      execCommand_unlink_def closeActions_def checkState_def Let_def)

text \<open>
  Claim C1, amended, at the example document.
\<close>

theorem surround_on_annotation_witness:
  "calls (surround (Some on_link) (rendered example_doc (Some on_link))) =
     [SetFakeBackground, Save, ExpandToTag 1, ExecCommand (js ''unlink'') None,
      CurrentSave, Restore, RemoveFakeBackground, CurrentRestore, ClearSaved, ToolbarClose]
   \<and> doc (surround (Some on_link) (rendered example_doc (Some on_link))) =
       [Plain (js ''see ''), Plain (js ''text''), Plain (js '' now'')]
   \<and> \<not> inputOpened (surround (Some on_link) (rendered example_doc (Some on_link)))"
proof -
  have 1: "\<not> inputOpened (rendered example_doc (Some on_link))"
    and 2: "live (rendered example_doc (Some on_link)) = Some on_link"
    and 3: "sel_node on_link < length (doc (rendered example_doc (Some on_link)))"
    and 4: "doc (rendered example_doc (Some on_link)) ! sel_node on_link =
        Anchor (Some (js ''http://x.com'')) None (js ''text'')"
    by (simp_all add: example_defs)
  show ?thesis
    using surround_on_annotation [OF 1 2 3 4, of on_link]
    by (simp add: example_defs)
qed

subsection \<open>enterPressed\<close>

text \<open>
  Claim C4, as stated, fails: a link text of one space is not empty and
  contains white space, yet Enter takes the path of the empty link: no
  notifier call, the annotation unlinked, the input closed.
\<close>

theorem enterPressed_invalid_counterexample:
  "linkValue (typed (js '' '') [] opened_editing) \<noteq> []
   \<and> 0x20 \<in> set (linkValue (typed (js '' '') [] opened_editing))
   \<and> isWhiteSpace 0x20
   \<and> (case enterPressed (typed (js '' '') [] opened_editing) of
         Inl e \<Rightarrow> False
       | Inr t \<Rightarrow> \<not> inputOpened t
           \<and> calls t = [Save, Restore, ExecCommand (js ''unlink'') None, PreventDefault, ClearSaved]
           \<and> doc t = [Plain (js ''see ''), Plain (js ''text''), Plain (js '' now'')]
           \<and> doc t \<noteq> doc (typed (js '' '') [] opened_editing))"
proof -
  have t: "trim (js '' '') = []" by (simp add: trim_def char_defs)
  have 1: "linkValue (typed (js '' '') [] opened_editing) \<noteq> []"
    and 2: "0x20 \<in> set (linkValue (typed (js '' '') [] opened_editing))"
    by (simp_all add: typed_def js_def)
  have 3: "isWhiteSpace 0x20" by (simp add: isWhiteSpace_def)
  have "enterPressed (typed (js '' '') [] opened_editing) =
      Inr (closeActions True (called PreventDefault
        (unlink (selection_restore (typed (js '' '') [] opened_editing)))))"
    by (simp add: enterPressed_def typed_def t)
  then show ?thesis
    using 1 2 3
    by (simp add: typed_def opened_editing_eq closeActions_def unlink_def execCommand_unlink_def
        findParentTag_def selection_defs example_doc_def on_link_def)
qed

text \<open>
  Claim C4, amended. When Enter is pressed and the link text is not empty after
  trimming and contains a white space character, \<open>validateURL\<close> is false and the
  handler only shows one error on the notifier and logs a warning: the input
  stays open, the values of the inputs are unchanged, the document and the
  selection are unchanged and no document command is called.
\<close>

theorem enterPressed_invalid:
  assumes "trim (linkValue s) \<noteq> []" and "c \<in> set (linkValue s)" and "isWhiteSpace c"
  shows "\<not> validateURL (linkValue s) \<and>
    enterPressed s =
      Inr (s\<lparr>calls := calls s @ [NotifierShow (js ''Pasted link is not valid.'') (js ''error''),
                                   Log (js ''Incorrect Link pasted'') (js ''warn'') (linkValue s)]\<rparr>)"
proof -
  have v: "\<not> validateURL (linkValue s)" using assms(2,3) by (auto simp: validateURL_iff)
  then show ?thesis using assms(1) by (simp add: enterPressed_def called_def)
qed

text \<open>
  Claim C4, amended, at \<^verbatim>\<open>"go to site"\<close> typed into a new session.
\<close>

theorem enterPressed_invalid_witness:
  "trim (linkValue (typed (js ''go to site'') [] opened_new)) \<noteq> []
   \<and> 0x20 \<in> set (linkValue (typed (js ''go to site'') [] opened_new))
   \<and> isWhiteSpace 0x20
   \<and> \<not> validateURL (js ''go to site'')
   \<and> enterPressed (typed (js ''go to site'') [] opened_new) =
       Inr (typed (js ''go to site'') [] opened_new
             \<lparr>calls := [SetFakeBackground, Save, Focus,
                        NotifierShow (js ''Pasted link is not valid.'') (js ''error''),
                        Log (js ''Incorrect Link pasted'') (js ''warn'') (js ''go to site'')]\<rparr>)"
proof -
  have 1: "trim (linkValue (typed (js ''go to site'') [] opened_new)) \<noteq> []"
    by (simp add: typed_def trim_def char_defs)
  have 2: "0x20 \<in> set (linkValue (typed (js ''go to site'') [] opened_new))"
    by (simp add: typed_def js_def)
  have 3: "isWhiteSpace 0x20" by (simp add: isWhiteSpace_def)
  show ?thesis
    using enterPressed_invalid [OF 1 2 3] 1 2 3
    by (simp add: typed_def opened_new_eq)
qed

text \<open>
  Claim C6. When Enter is pressed and the link text is empty, the handler
  restores the saved selection, calls unlink, prevents the default and closes
  the input: no notifier call, the input not opened and both inputs empty, the
  text of the document as before, no annotation around the selection, and an
  annotation that enclosed the saved selection replaced by its text.
\<close>

theorem enterPressed_empty:
  assumes "linkValue s = []"
  shows "\<exists>t. enterPressed s = Inr t
    \<and> calls t = calls s @ [Restore, ExecCommand (js ''unlink'') None, PreventDefault]
        @ (if isFakeBackgroundEnabled (selection s)
           then [CurrentSave, Restore, RemoveFakeBackground, CurrentRestore] else [])
        @ [ClearSaved]
    \<and> \<not> inputOpened t \<and> linkValue t = [] \<and> titleValue t = []
    \<and> map text_of (doc t) = map text_of (doc s)
    \<and> findParentTag t = None
    \<and> (\<forall>r h ti x. savedSelectionRange (selection s) = Some r \<and> sel_node r < length (doc s)
          \<and> doc s ! sel_node r = Anchor h ti x
        \<longrightarrow> doc t = (doc s)[sel_node r := Plain x])"
proof -
  define u where "u = unlink (selection_restore s)"
  define t where "t = closeActions True (called PreventDefault u)"
  have e: "enterPressed s = Inr t"
    using assms by (simp add: enterPressed_def trim_def t_def u_def)
  have lu: "live u = restore (selection s) (live s)"
    by (simp add: u_def unlink_live selection_restore_def called_def)
  have su: "selection u = selection s"
    by (simp add: u_def unlink_other selection_restore_def called_def)
  have cu: "calls u = calls s @ [Restore, ExecCommand (js ''unlink'') None]"
    by (simp add: u_def unlink_other selection_restore_def called_def)
  have "live u \<noteq> None \<or> savedSelectionRange (selection u) = None"
    by (simp add: lu su restore_def split: option.splits)
  then have lt: "live t = live u"
    by (simp add: t_def called_def closeActions_live)
  have dt: "doc t = doc u"
    by (simp add: t_def closeActions_frame called_def)
  have "findParentTag t = findParentTag u" using dt lt by (rule findParentTag_eq)
  then have n: "findParentTag t = None" by (simp add: u_def unlink_none)
  have tx: "map text_of (doc t) = map text_of (doc s)"
    by (simp add: dt u_def unlink_text) (simp add: selection_restore_def called_def)
  have c: "calls t = calls s @ [Restore, ExecCommand (js ''unlink'') None, PreventDefault]
        @ (if isFakeBackgroundEnabled (selection s)
           then [CurrentSave, Restore, RemoveFakeBackground, CurrentRestore] else [])
        @ [ClearSaved]"
    by (simp add: t_def closeActions_calls) (simp add: called_def cu su)
  have f: "\<not> inputOpened t \<and> linkValue t = [] \<and> titleValue t = []"
    by (simp add: t_def closeActions_frame)
  have d: "doc t = (doc s)[sel_node r := Plain x]"
    if "savedSelectionRange (selection s) = Some r" "sel_node r < length (doc s)"
       "doc s ! sel_node r = Anchor h ti x" for r h ti x
    using that
    by (simp add: dt u_def unlink_def execCommand_unlink_def findParentTag_def
        selection_restore_def called_def restore_def)
  show ?thesis using e c f tx n d by blast
qed

text \<open>
  Claim C6 at the session opened inside the annotation of the example document,
  with the link input emptied.
\<close>

theorem enterPressed_empty_witness:
  "linkValue (typed [] [] opened_editing) = []
   \<and> (case enterPressed (typed [] [] opened_editing) of
         Inl e \<Rightarrow> False
       | Inr t \<Rightarrow> \<not> inputOpened t
           \<and> calls t = [Save, Restore, ExecCommand (js ''unlink'') None, PreventDefault, ClearSaved]
           \<and> doc t = [Plain (js ''see ''), Plain (js ''text''), Plain (js '' now'')]
           \<and> findParentTag t = None)"
proof -
  have 1: "linkValue (typed [] [] opened_editing) = []" by (simp add: typed_def)
  obtain t where e: "enterPressed (typed [] [] opened_editing) = Inr t"
    and c: "calls t = calls (typed [] [] opened_editing)
        @ [Restore, ExecCommand (js ''unlink'') None, PreventDefault]
        @ (if isFakeBackgroundEnabled (selection (typed [] [] opened_editing))
           then [CurrentSave, Restore, RemoveFakeBackground, CurrentRestore] else [])
        @ [ClearSaved]"
    and o: "\<not> inputOpened t" and n: "findParentTag t = None"
    and d: "\<forall>r h ti x. savedSelectionRange (selection (typed [] [] opened_editing)) = Some r
          \<and> sel_node r < length (doc (typed [] [] opened_editing))
          \<and> doc (typed [] [] opened_editing) ! sel_node r = Anchor h ti x
        \<longrightarrow> doc t = (doc (typed [] [] opened_editing))[sel_node r := Plain x]"
    using enterPressed_empty [OF 1] by blast
  have "savedSelectionRange (selection (typed [] [] opened_editing)) = Some on_link
      \<and> sel_node on_link < length (doc (typed [] [] opened_editing))
      \<and> doc (typed [] [] opened_editing) ! sel_node on_link =
          Anchor (Some (js ''http://x.com'')) None (js ''text'')"
    by (simp add: typed_def opened_editing_eq example_doc_def on_link_def)
  with d have "doc t = (doc (typed [] [] opened_editing))[sel_node on_link := Plain (js ''text'')]"
    by blast
  then have d': "doc t = [Plain (js ''see ''), Plain (js ''text''), Plain (js '' now'')]"
    by (simp add: typed_def opened_editing_eq example_doc_def on_link_def)
  have c': "calls t = [Save, Restore, ExecCommand (js ''unlink'') None, PreventDefault, ClearSaved]"
    using c by (simp add: typed_def opened_editing_eq)
  show ?thesis using 1 e o n c' d' by simp
qed

subsection \<open>insertLink\<close>

lemma nth_middle2: "length xs = n \<Longrightarrow> (xs @ ys @ [a] @ zs) ! (n + length ys) = a"
  by (auto simp: nth_append)

lemma update_middle2:
  "length xs = n \<Longrightarrow> (xs @ ys @ [a] @ zs)[n + length ys := b] = xs @ ys @ [b] @ zs"
  by (auto simp: list_update_append)

lemma insertLink_Anchor:
  assumes "live s = Some r" and "sel_node r < length (doc s)"
    and "doc s ! sel_node r = Anchor h t x" and "x \<noteq> []"
  shows "insertLink link title s =
    Inr (s\<lparr>doc := (doc s)[sel_node r := Anchor (Some link) (Some title) x],
           live := Some \<lparr>sel_node = sel_node r, sel_from = 0, sel_to = length x\<rparr>,
           calls := calls s @ [ExpandToTag (sel_node r),
                               ExecCommand (js ''createLink'') (Some link), SetTitle title]\<rparr>)"
proof -
  have u: "take (sel_node r) (doc s) @ [Anchor (Some link) None x] @ drop (Suc (sel_node r)) (doc s)
     = (doc s)[sel_node r := Anchor (Some link) None x]"
    using assms(2) by (simp add: upd_conv_take_nth_drop)
  show ?thesis
    using assms
    by (simp add: insertLink_def findParentTag_def expandToTag_def execCommand_createLink_def
        called_def piece_def Let_def u [simplified])
qed

lemma insertLink_Plain:
  assumes "live s = Some r" and "sel_node r < length (doc s)"
    and "doc s ! sel_node r = Plain x" and "sel_from r < sel_to r" and "sel_to r \<le> length x"
  shows "insertLink link title s =
    Inr (s\<lparr>doc := take (sel_node r) (doc s) @ piece (Plain x) (take (sel_from r) x)
                   @ [Anchor (Some link) (Some title) (take (sel_to r - sel_from r) (drop (sel_from r) x))]
                   @ piece (Plain x) (drop (sel_to r) x) @ drop (Suc (sel_node r)) (doc s),
           live := Some \<lparr>sel_node = sel_node r + length (piece (Plain x) (take (sel_from r) x)),
                          sel_from = 0, sel_to = sel_to r - sel_from r\<rparr>,
           calls := calls s @ [ExecCommand (js ''createLink'') (Some link), SetTitle title]\<rparr>)"
proof -
  define pre where "pre = piece (Plain x) (take (sel_from r) x)"
  define post where "post = piece (Plain x) (drop (sel_to r) x)"
  define mid where "mid = take (sel_to r - sel_from r) (drop (sel_from r) x)"
  define d where "d = take (sel_node r) (doc s) @ pre @ [Anchor (Some link) None mid] @ post
      @ drop (Suc (sel_node r)) (doc s)"
  define s2 where "s2 = execCommand_createLink link s"
  have n: "length (take (sel_node r) (doc s)) = sel_node r" using assms(2) by simp
  have lm: "length mid = sel_to r - sel_from r" using assms(4,5) by (simp add: mid_def)
  have s2: "s2 = s\<lparr>doc := d, live := Some \<lparr>sel_node = sel_node r + length pre, sel_from = 0,
                 sel_to = sel_to r - sel_from r\<rparr>,
               calls := calls s @ [ExecCommand (js ''createLink'') (Some link)]\<rparr>"
    using assms
    by (simp add: s2_def execCommand_createLink_def called_def Let_def d_def pre_def post_def
        mid_def)
  have at: "d ! (sel_node r + length pre) = Anchor (Some link) None mid"
    unfolding d_def using n by (rule nth_middle2)
  have len: "sel_node r + length pre < length d"
    using assms(2) by (simp add: d_def)
  have f2: "findParentTag s2 = Some (sel_node r + length pre)"
    using at len by (simp add: s2 findParentTag_def)
  have up: "d[sel_node r + length pre := Anchor (Some link) (Some title) mid]
      = take (sel_node r) (doc s) @ pre @ [Anchor (Some link) (Some title) mid] @ post
        @ drop (Suc (sel_node r)) (doc s)"
    unfolding d_def using n by (rule update_middle2)
  have f1: "findParentTag s = None" using assms(1,3) by (rule findParentTag_Plain)
  have "insertLink link title s =
      Inr (called (SetTitle title)
             (s2\<lparr>doc := (doc s2)[sel_node r + length pre :=
                    Anchor (href_of (doc s2 ! (sel_node r + length pre))) (Some title)
                      (text_of (doc s2 ! (sel_node r + length pre)))]\<rparr>))"
    using f1 f2 by (simp add: insertLink_def s2_def [symmetric])
  also have "\<dots> = Inr (s\<lparr>doc := take (sel_node r) (doc s) @ pre
                   @ [Anchor (Some link) (Some title) mid] @ post @ drop (Suc (sel_node r)) (doc s),
           live := Some \<lparr>sel_node = sel_node r + length pre, sel_from = 0,
                          sel_to = sel_to r - sel_from r\<rparr>,
           calls := calls s @ [ExecCommand (js ''createLink'') (Some link), SetTitle title]\<rparr>)"
    by (simp add: s2 at up called_def)
  finally show ?thesis by (simp add: pre_def post_def mid_def)
qed

text \<open>
  Claim C8. When the selection lies in an annotation that has text, or selects
  text of a plain run, \<open>insertLink link title\<close> succeeds, and the annotation
  then found around the selection has \<^verbatim>\<open>href\<close> equal to \<open>link\<close> and \<^verbatim>\<open>title\<close>
  equal to \<open>title\<close>, the empty title too. When the selection lies in an
  annotation, the selection is expanded to it before the link is created, and
  the whole annotation is replaced, the rest of the document being kept.
\<close>

theorem insertLink_annotation:
  assumes "live s = Some r" and "sel_node r < length (doc s)"
    and "case doc s ! sel_node r of
           Anchor h ti y \<Rightarrow> y \<noteq> []
         | Plain y \<Rightarrow> sel_from r < sel_to r \<and> sel_to r \<le> length y"
  shows "\<exists>t a x. insertLink link title s = Inr t
    \<and> findParentTag t = Some a
    \<and> doc t ! a = Anchor (Some link) (Some title) x
    \<and> (\<forall>h ti y. doc s ! sel_node r = Anchor h ti y \<longrightarrow>
          calls t = calls s @ [ExpandToTag (sel_node r),
                               ExecCommand (js ''createLink'') (Some link), SetTitle title]
          \<and> doc t = (doc s)[sel_node r := Anchor (Some link) (Some title) y])"
proof (cases "doc s ! sel_node r")
  case (Plain y)
  with assms(3) have ne: "sel_from r < sel_to r" and le: "sel_to r \<le> length y" by simp_all
  define pre where "pre = piece (Plain y) (take (sel_from r) y)"
  define post where "post = piece (Plain y) (drop (sel_to r) y)"
  define mid where "mid = take (sel_to r - sel_from r) (drop (sel_from r) y)"
  define d where "d = take (sel_node r) (doc s) @ pre @ [Anchor (Some link) (Some title) mid] @ post
      @ drop (Suc (sel_node r)) (doc s)"
  define t where "t = s\<lparr>doc := d,
      live := Some \<lparr>sel_node = sel_node r + length pre, sel_from = 0, sel_to = sel_to r - sel_from r\<rparr>,
      calls := calls s @ [ExecCommand (js ''createLink'') (Some link), SetTitle title]\<rparr>"
  have i: "insertLink link title s = Inr t"
    using insertLink_Plain [OF assms(1,2) Plain ne le, of link title]
    by (simp add: t_def d_def pre_def post_def mid_def)
  have n: "length (take (sel_node r) (doc s)) = sel_node r" using assms(2) by simp
  have at: "d ! (sel_node r + length pre) = Anchor (Some link) (Some title) mid"
    unfolding d_def using n by (rule nth_middle2)
  have len: "sel_node r + length pre < length d" using assms(2) by (simp add: d_def)
  have f: "findParentTag t = Some (sel_node r + length pre)"
    using at len by (simp add: t_def findParentTag_def)
  have "doc t ! (sel_node r + length pre) = Anchor (Some link) (Some title) mid"
    using at by (simp add: t_def)
  with i f Plain show ?thesis by auto
next
  case (Anchor h ti y)
  with assms(3) have ne: "y \<noteq> []" by simp
  define t where "t = s\<lparr>doc := (doc s)[sel_node r := Anchor (Some link) (Some title) y],
           live := Some \<lparr>sel_node = sel_node r, sel_from = 0, sel_to = length y\<rparr>,
           calls := calls s @ [ExpandToTag (sel_node r),
                               ExecCommand (js ''createLink'') (Some link), SetTitle title]\<rparr>"
  have i: "insertLink link title s = Inr t"
    using insertLink_Anchor [OF assms(1,2) Anchor ne, of link title] by (simp add: t_def)
  have f: "findParentTag t = Some (sel_node r)"
    using assms(2) by (simp add: t_def findParentTag_def)
  have "doc t ! sel_node r = Anchor (Some link) (Some title) y"
    using assms(2) by (simp add: t_def)
  moreover have "calls t = calls s @ [ExpandToTag (sel_node r),
                               ExecCommand (js ''createLink'') (Some link), SetTitle title]"
    by (simp add: t_def)
  moreover have "doc t = (doc s)[sel_node r := Anchor (Some link) (Some title) y]"
    by (simp add: t_def)
  ultimately show ?thesis using i f Anchor by auto
qed

text \<open>
  Claim C8 at the example document, with the empty title.
\<close>

theorem insertLink_annotation_witness:
  "(case insertLink (js ''http://vc.ru'') [] (rendered example_doc (Some on_link)) of
      Inl e \<Rightarrow> False
    | Inr t \<Rightarrow>
        calls t = [ExpandToTag 1, ExecCommand (js ''createLink'') (Some (js ''http://vc.ru'')),
                   SetTitle []]
        \<and> doc t = [Plain (js ''see ''), Anchor (Some (js ''http://vc.ru'')) (Some []) (js ''text''),
                   Plain (js '' now'')]
        \<and> findParentTag t = Some 1)"
proof -
  let ?s = "rendered example_doc (Some on_link)"
  have 1: "live ?s = Some on_link" and 2: "sel_node on_link < length (doc ?s)"
    and 3: "case doc ?s ! sel_node on_link of
           Anchor h ti y \<Rightarrow> y \<noteq> []
         | Plain y \<Rightarrow> sel_from on_link < sel_to on_link \<and> sel_to on_link \<le> length y"
    and 4: "doc ?s ! sel_node on_link = Anchor (Some (js ''http://x.com'')) None (js ''text'')"
    by (simp_all add: example_defs js_def)
  obtain t a x where e: "insertLink (js ''http://vc.ru'') [] ?s = Inr t"
    and f: "findParentTag t = Some a"
    and h: "\<forall>h ti y. doc ?s ! sel_node on_link = Anchor h ti y \<longrightarrow>
          calls t = calls ?s @ [ExpandToTag (sel_node on_link),
                               ExecCommand (js ''createLink'') (Some (js ''http://vc.ru'')), SetTitle []]
          \<and> doc t = (doc ?s)[sel_node on_link := Anchor (Some (js ''http://vc.ru'')) (Some []) y]"
    using insertLink_annotation [OF 1 2 3, of "js ''http://vc.ru''" "[]"] by blast
  from h 4 have c: "calls t = calls ?s @ [ExpandToTag (sel_node on_link),
                               ExecCommand (js ''createLink'') (Some (js ''http://vc.ru'')), SetTitle []]"
    and d: "doc t = (doc ?s)[sel_node on_link := Anchor (Some (js ''http://vc.ru'')) (Some []) (js ''text'')]"
    by blast+
  have d': "doc t = [Plain (js ''see ''), Anchor (Some (js ''http://vc.ru'')) (Some []) (js ''text''),
                   Plain (js '' now'')]"
    using d by (simp add: example_defs)
  have "a = 1" using findParentTag_SomeD [OF f] d'
    by (cases a) (auto simp: nth_Cons split: nat.splits)
  then show ?thesis using e f c d' by (simp add: example_defs)
qed

subsection \<open>Enter on a valid link\<close>

lemma after_insert:
  assumes "\<not> isFakeBackgroundEnabled (selection t)"
  shows "inlineToolbar_close (collapseToEnd (called StopImmediatePropagation
            (called StopPropagation (called PreventDefault t)))) =
    t\<lparr>live := (case live t of None \<Rightarrow> None | Some r \<Rightarrow> Some (r\<lparr>sel_from := sel_to r\<rparr>)),
      selection := clearSaved (selection t),
      rootShowed := False, linkShowed := False, titleShowed := False,
      linkValue := [], titleValue := [], inputOpened := False,
      calls := calls t @ [PreventDefault, StopPropagation, StopImmediatePropagation,
                          CollapseToEnd, InlineToolbarClose, ClearSaved]\<rparr>"
  using assms
  by (simp add: inlineToolbar_close_def clear_def closeActions_def collapseToEnd_def
      selection_clearSaved_def called_def Let_def)

text \<open>
  Claim C5. When Enter is pressed, the link text is not empty and contains no
  white space, and the saved selection lies in an annotation that has text or
  selects text of a plain run, the handler restores the saved selection,
  removes the fake background, inserts the prepared link with the title,
  prevents the default and stops the event, collapses the selection to the end
  of the new annotation and closes the inline toolbar, in this order; the host
  then clears the tool, so the input is not opened, both inputs are empty and
  no selection is saved.
\<close>

theorem enterPressed_valid:
  assumes "linkValue s \<noteq> []" and "\<forall>c \<in> set (linkValue s). \<not> isWhiteSpace c"
    and "savedSelectionRange (selection s) = Some r" and "sel_node r < length (doc s)"
    and "case doc s ! sel_node r of
           Anchor h ti y \<Rightarrow> y \<noteq> []
         | Plain y \<Rightarrow> sel_from r < sel_to r \<and> sel_to r \<le> length y"
  shows "\<exists>t a x. enterPressed s = Inr t
    \<and> calls t = calls s @ [Restore, RemoveFakeBackground]
        @ (case doc s ! sel_node r of
             Anchor h ti y \<Rightarrow> [ExpandToTag (sel_node r)] | Plain y \<Rightarrow> [])
        @ [ExecCommand (js ''createLink'') (Some (prepareLink (linkValue s))),
           SetTitle (titleValue s), PreventDefault, StopPropagation, StopImmediatePropagation,
           CollapseToEnd, InlineToolbarClose, ClearSaved]
    \<and> a < length (doc t)
    \<and> doc t ! a = Anchor (Some (prepareLink (linkValue s))) (Some (titleValue s)) x
    \<and> live t = Some \<lparr>sel_node = a, sel_from = length x, sel_to = length x\<rparr>
    \<and> \<not> inputOpened t \<and> linkValue t = [] \<and> titleValue t = []
    \<and> \<not> isFakeBackgroundEnabled (selection t)
    \<and> savedSelectionRange (selection t) = None"
proof -
  define link where "link = prepareLink (linkValue s)"
  define s1 where "s1 = selection_removeFakeBackground (selection_restore s)"
  have tr: "trim (linkValue s) \<noteq> []" using assms(1,2) by (simp add: trim_no_space)
  have v: "validateURL (linkValue s)" using assms(2) by (simp add: validateURL_iff)
  have e: "enterPressed s =
      (case insertLink link (titleValue s) s1 of
         Inl e \<Rightarrow> Inl e
       | Inr s2 \<Rightarrow> Inr (inlineToolbar_close (collapseToEnd (called StopImmediatePropagation
            (called StopPropagation (called PreventDefault s2))))))"
    using tr v by (simp add: enterPressed_def Let_def link_def s1_def)
  have l1: "live s1 = Some r" and d1: "doc s1 = doc s"
    and c1: "calls s1 = calls s @ [Restore, RemoveFakeBackground]"
    and f1: "\<not> isFakeBackgroundEnabled (selection s1)"
    using assms(3) by (simp_all add: s1_def selection_defs)
  show ?thesis
  proof (cases "doc s ! sel_node r")
    case (Plain y)
    with assms(5) have ne: "sel_from r < sel_to r" and le: "sel_to r \<le> length y" by simp_all
    define pre where "pre = piece (Plain y) (take (sel_from r) y)"
    define post where "post = piece (Plain y) (drop (sel_to r) y)"
    define mid where "mid = take (sel_to r - sel_from r) (drop (sel_from r) y)"
    define d where "d = take (sel_node r) (doc s) @ pre @ [Anchor (Some link) (Some (titleValue s)) mid]
        @ post @ drop (Suc (sel_node r)) (doc s)"
    define t where "t = s1\<lparr>doc := d,
        live := Some \<lparr>sel_node = sel_node r + length pre, sel_from = 0, sel_to = sel_to r - sel_from r\<rparr>,
        calls := calls s1 @ [ExecCommand (js ''createLink'') (Some link), SetTitle (titleValue s)]\<rparr>"
    have p1: "doc s1 ! sel_node r = Plain y" using Plain by (simp add: d1)
    have n1: "sel_node r < length (doc s1)" using assms(4) by (simp add: d1)
    have i: "insertLink link (titleValue s) s1 = Inr t"
      using insertLink_Plain [OF l1 n1 p1 ne le, of link "titleValue s"]
      by (simp add: t_def d_def pre_def post_def mid_def d1)
    have n: "length (take (sel_node r) (doc s)) = sel_node r" using assms(4) by simp
    have at: "d ! (sel_node r + length pre) = Anchor (Some link) (Some (titleValue s)) mid"
      unfolding d_def using n by (rule nth_middle2)
    have len: "sel_node r + length pre < length d" using assms(4) by (simp add: d_def)
    have lm: "length mid = sel_to r - sel_from r" using ne le by (simp add: mid_def)
    have ft: "\<not> isFakeBackgroundEnabled (selection t)" using f1 by (simp add: t_def)
    show ?thesis
      using at len lm Plain f1
      by (simp add: e i after_insert [OF ft] link_def [symmetric])
         (auto simp: t_def c1 clearSaved_def)
  next
    case (Anchor h ti y)
    with assms(5) have ne: "y \<noteq> []" by simp
    define t where "t = s1\<lparr>doc := (doc s)[sel_node r := Anchor (Some link) (Some (titleValue s)) y],
           live := Some \<lparr>sel_node = sel_node r, sel_from = 0, sel_to = length y\<rparr>,
           calls := calls s1 @ [ExpandToTag (sel_node r),
                               ExecCommand (js ''createLink'') (Some link), SetTitle (titleValue s)]\<rparr>"
    have p1: "doc s1 ! sel_node r = Anchor h ti y" using Anchor by (simp add: d1)
    have n1: "sel_node r < length (doc s1)" using assms(4) by (simp add: d1)
    have i: "insertLink link (titleValue s) s1 = Inr t"
      using insertLink_Anchor [OF l1 n1 p1 ne, of link "titleValue s"] by (simp add: t_def d1)
    have ft: "\<not> isFakeBackgroundEnabled (selection t)" using f1 by (simp add: t_def)
    show ?thesis
      using assms(4) Anchor f1
      by (simp add: e i after_insert [OF ft] link_def [symmetric])
         (auto simp: t_def c1 clearSaved_def)
  qed
qed

text \<open>
  Claim C5 at \<^verbatim>\<open>"vc.ru"\<close> with title \<^verbatim>\<open>"T"\<close> typed into a new session.
\<close>

theorem enterPressed_valid_witness:
  "linkValue (typed (js ''vc.ru'') (js ''T'') opened_new) \<noteq> []
   \<and> validateURL (js ''vc.ru'')
   \<and> (case enterPressed (typed (js ''vc.ru'') (js ''T'') opened_new) of
         Inl e \<Rightarrow> False
       | Inr t \<Rightarrow> \<not> inputOpened t \<and> linkValue t = [] \<and> titleValue t = []
           \<and> calls t = [SetFakeBackground, Save, Focus, Restore, RemoveFakeBackground,
                ExecCommand (js ''createLink'') (Some (js ''http://vc.ru'')), SetTitle (js ''T''),
                PreventDefault, StopPropagation, StopImmediatePropagation, CollapseToEnd,
                InlineToolbarClose, ClearSaved])"
proof -
  let ?s = "typed (js ''vc.ru'') (js ''T'') opened_new"
  have 1: "linkValue ?s \<noteq> []" by (simp add: typed_def js_def)
  have 2: "\<forall>c \<in> set (linkValue ?s). \<not> isWhiteSpace c" by (simp add: typed_def char_defs)
  have 3: "savedSelectionRange (selection ?s) = Some on_plain"
    by (simp add: typed_def opened_new_eq)
  have 4: "sel_node on_plain < length (doc ?s)"
    by (simp add: typed_def opened_new_eq example_doc_def on_plain_def)
  have 5: "case doc ?s ! sel_node on_plain of
           Anchor h ti y \<Rightarrow> y \<noteq> []
         | Plain y \<Rightarrow> sel_from on_plain < sel_to on_plain \<and> sel_to on_plain \<le> length y"
    by (simp add: typed_def opened_new_eq example_doc_def on_plain_def js_def)
  have p: "prepareLink (js ''vc.ru'') = js ''http://vc.ru''"
    by (simp add: prepareLink_def addProtocol_def trim_def char_defs pattern_defs)
  have v: "validateURL (js ''vc.ru'')" using 2 by (simp add: validateURL_iff typed_def)
  obtain t where e: "enterPressed ?s = Inr t"
    and c: "calls t = calls ?s @ [Restore, RemoveFakeBackground]
        @ (case doc ?s ! sel_node on_plain of
             Anchor h ti y \<Rightarrow> [ExpandToTag (sel_node on_plain)] | Plain y \<Rightarrow> [])
        @ [ExecCommand (js ''createLink'') (Some (prepareLink (linkValue ?s))),
           SetTitle (titleValue ?s), PreventDefault, StopPropagation, StopImmediatePropagation,
           CollapseToEnd, InlineToolbarClose, ClearSaved]"
    and o: "\<not> inputOpened t" "linkValue t = []" "titleValue t = []"
    using enterPressed_valid [OF 1 2 3 4 5] by blast
  have "calls t = [SetFakeBackground, Save, Focus, Restore, RemoveFakeBackground,
                ExecCommand (js ''createLink'') (Some (js ''http://vc.ru'')), SetTitle (js ''T''),
                PreventDefault, StopPropagation, StopImmediatePropagation, CollapseToEnd,
                InlineToolbarClose, ClearSaved]"
    using c by (simp add: typed_def opened_new_eq example_doc_def on_plain_def p)
  then show ?thesis using 1 v e o by simp
qed

end
